theory Spec2Isabelle
  imports Complex_Main "HOL-Library.AList"
begin

section \<open>The label-correction workflow of data_centric.py\<close>

text \<open>
  The development embeds \<^verbatim>\<open>process_mislabeled_images\<close> (the function of the
  ``enhancing script'' part of \<^verbatim>\<open>src/data_centric.py\<close>). The function scans the
  directory \<^verbatim>\<open><root>/0\<close>, calls a YOLO detector on every image file, moves a file
  to \<^verbatim>\<open><root>/1\<close> when a person is detected above a threshold, and writes a log.

  What surrounds the function is made explicit: the two class directories and the
  \<^verbatim>\<open>logs\<close> directory are association lists from entry names to contents, the
  detector is a function from a path to either the message of the exception it raises or
  its list of results, the wall clock is a value, and every \<^verbatim>\<open>raise\<close> is a
  branch. Standard output (\<^verbatim>\<open>print\<close>) is not modelled, and writing to the opened
  log file is taken to succeed.
\<close>

subsection \<open>Strings, paths and formatting\<close>


definition quote_char :: char where
  "quote_char = CHR 0x27"

text \<open>\<^verbatim>\<open>str.lower\<close> on the ASCII letters, which are the only characters that can
  lower to a character of the three accepted extensions.\<close>

definition lower_char :: "char \<Rightarrow> char" where
  "lower_char c =
     (let n = (of_char c :: nat) in if 65 \<le> n \<and> n \<le> 90 then char_of (n + 32) else c)"

definition lower :: "string \<Rightarrow> string" where
  "lower s = map lower_char s"

text \<open>\<^verbatim>\<open>s.endswith(suffix)\<close> for one suffix.\<close>

definition endswith :: "string \<Rightarrow> string \<Rightarrow> bool" where
  "endswith s suf = (length suf \<le> length s \<and> drop (length s - length suf) s = suf)"

text \<open>Line 448: \<^verbatim>\<open>filename.lower().endswith((".jpg", ".jpeg", ".png"))\<close>.\<close>

definition accepted :: "string \<Rightarrow> bool" where
  "accepted filename =
     (let l = lower filename
      in endswith l ''.jpg'' \<or> endswith l ''.jpeg'' \<or> endswith l ''.png'')"

text \<open>\<^verbatim>\<open>os.path.join(a, b)\<close> with two arguments, as posixpath defines it.\<close>

definition path_join :: "string \<Rightarrow> string \<Rightarrow> string" where
  "path_join a b =
     (if b \<noteq> [] \<and> hd b = CHR ''/'' then b
      else if a = [] \<or> last a = CHR ''/'' then a @ b
      else a @ ''/'' @ b)"

definition digit_char :: "nat \<Rightarrow> char" where
  "digit_char d = char_of (48 + d)"



definition pad2 :: "nat \<Rightarrow> string" where
  "pad2 n = [digit_char (n div 10 mod 10), digit_char (n mod 10)]"

definition pad4 :: "nat \<Rightarrow> string" where
  "pad4 n = pad2 (n div 100) @ pad2 (n mod 100)"

text \<open>The value of \<^verbatim>\<open>datetime.now()\<close> and its rendering by
  \<^verbatim>\<open>strftime("%Y%m%d_%H%M%S")\<close> (line 439), every field zero-padded. The year
  of a clock reading has four digits (1000 to 9999).\<close>

record datetime =
  year :: nat
  month :: nat
  day :: nat
  hour :: nat
  minute :: nat
  second :: nat

definition strftime :: "datetime \<Rightarrow> string" where
  "strftime t =
     pad4 (year t) @ pad2 (month t) @ pad2 (day t) @ ''_'' @
     pad2 (hour t) @ pad2 (minute t) @ pad2 (second t)"



subsection \<open>Detections, the log and the state of a run\<close>

text \<open>One element of \<^verbatim>\<open>result.boxes\<close>: \<open>cls\<close> is \<^verbatim>\<open>int(box.cls)\<close> and
  \<open>conf\<close> is \<^verbatim>\<open>float(box.conf)\<close> (lines 454 and 455).\<close>

record box =
  cls :: int
  conf :: real

text \<open>What \<^verbatim>\<open>model(file_path, verbose=False)\<close> does: it raises (the message of
  the exception on the left) or returns a list of results, each with its boxes.\<close>

type_synonym detector = "string \<Rightarrow> string + box list list"

text \<open>One \<^verbatim>\<open>log_file.write\<close> call: the header of line 446, the line of 459 or the
  line of 465.\<close>

datatype log_entry =
    Header
  | Moved string real
  | Error string string



fun is_Moved :: "log_entry \<Rightarrow> bool" where
  "is_Moved (Moved f x) = True"
| "is_Moved e = False"

type_synonym directory = "(string \<times> string) list"

text \<open>The mutable state inside the \<^verbatim>\<open>with open(...)\<close> block: the entries of the
  two class directories (name and content, in listing order), what has been written to the
  log file, the counter, and the paths the detector has been called with.\<close>

record run_state =
  nonperson :: directory
  person :: directory
  log_file :: "log_entry list"
  moved_count :: nat
  calls :: "string list"

text \<open>
  What follows an \<^verbatim>\<open>os.rename\<close> that raised \<^verbatim>\<open>OSError\<close> inside
  \<^verbatim>\<open>shutil.move\<close>: the fallback copy raises (with its message, and with what it
  leaves under the target name: nothing new, or some bytes), or the copy is made and
  \<^verbatim>\<open>os.unlink\<close> of the source raises, or both succeed.
\<close>

datatype fallback = CopyRaises string "string option" | UnlinkRaises string | Completes

text \<open>The values the loop body reads and never changes.\<close>

record ctx =
  model :: detector
  refuse :: "string \<Rightarrow> fallback option"
  confidence_threshold :: real
  non_person_dir :: string
  person_dir :: string

text \<open>The body of the \<^verbatim>\<open>try\<close>, and a call inside it, either completes or
  raises; the state reached so far is kept in both cases.\<close>

datatype outcome = Done run_state | Raised string run_state

text \<open>
  \<^verbatim>\<open>shutil.move(file_path, new_path)\<close> for an entry \<open>filename\<close> of the
  non-person directory (a regular file) and the path of the same name in the person
  directory, as the standard library has it:
  \<^verbatim>\<open>
  try:
      os.rename(src, real_dst)
  except OSError:
      ...
      copy_function(src, real_dst)
      os.unlink(src)
  \<close>
  \<open>refuse c filename\<close> is \<open>None\<close> when the operating system performs the rename,
  and otherwise says how the fallback goes. A rename moves the entry to the person
  directory and replaces an existing file of that name there; so does the copy, and the
  code makes no check of its own. When the source is gone both the rename and the copy
  raise and nothing changes. A fallback that raises leaves the entry in the non-person
  directory, and under its name in the person directory whatever the copy has written.
\<close>

definition enoent :: "ctx \<Rightarrow> string \<Rightarrow> string" where
  "enoent c filename =
     ''[Errno 2] No such file or directory: '' @ [quote_char] @
     path_join (non_person_dir c) filename @ [quote_char]"

definition shutil_move :: "ctx \<Rightarrow> string \<Rightarrow> run_state \<Rightarrow> outcome" where
  "shutil_move c filename st =
     (case map_of (nonperson st) filename of
        None \<Rightarrow> Raised (enoent c filename) st
      | Some content \<Rightarrow>
          (case refuse c filename of
             None \<Rightarrow>
               Done (st\<lparr>nonperson := AList.delete filename (nonperson st),
                        person := AList.update filename content (person st)\<rparr>)
           | Some (CopyRaises e left) \<Rightarrow>
               Raised e (case left of
                           None \<Rightarrow> st
                         | Some bytes \<Rightarrow> st\<lparr>person := AList.update filename bytes (person st)\<rparr>)
           | Some (UnlinkRaises e) \<Rightarrow>
               Raised e (st\<lparr>person := AList.update filename content (person st)\<rparr>)
           | Some Completes \<Rightarrow>
               Done (st\<lparr>nonperson := AList.delete filename (nonperson st),
                        person := AList.update filename content (person st)\<rparr>)))"

subsection \<open>The loops of lines 447 to 465\<close>

text \<open>Lines 453 to 462: the loop over the boxes of one result. The \<^verbatim>\<open>break\<close>
  of line 462 leaves this loop only.\<close>

fun boxes_loop :: "ctx \<Rightarrow> string \<Rightarrow> box list \<Rightarrow> run_state \<Rightarrow> outcome" where
  "boxes_loop c filename [] st = Done st"
| "boxes_loop c filename (b # bs) st =
     (let class_id = cls b; confidence = conf b
      in if class_id = 0 \<and> confidence > confidence_threshold c then
           (case shutil_move c filename st of
              Raised e st' \<Rightarrow> Raised e st'
            | Done st' \<Rightarrow>
                Done (st'\<lparr>log_file := log_file st' @ [Moved filename confidence],
                         moved_count := moved_count st' + 1\<rparr>))
         else boxes_loop c filename bs st)"

text \<open>Line 452: the loop over the results.\<close>

fun results_loop :: "ctx \<Rightarrow> string \<Rightarrow> box list list \<Rightarrow> run_state \<Rightarrow> outcome" where
  "results_loop c filename [] st = Done st"
| "results_loop c filename (result # results) st =
     (case boxes_loop c filename result st of
        Raised e st' \<Rightarrow> Raised e st'
      | Done st' \<Rightarrow> results_loop c filename results st')"

text \<open>Lines 449 to 462: the body of the \<^verbatim>\<open>try\<close>.\<close>

definition try_file :: "ctx \<Rightarrow> string \<Rightarrow> run_state \<Rightarrow> outcome" where
  "try_file c filename st =
     (let file_path = path_join (non_person_dir c) filename;
          st1 = st\<lparr>calls := calls st @ [file_path]\<rparr>
      in case model c file_path of
           Inl e \<Rightarrow> Raised e st1
         | Inr results \<Rightarrow> results_loop c filename results st1)"

text \<open>Lines 448 to 465: one iteration of the loop over the directory listing, with the
  \<^verbatim>\<open>except Exception\<close> handler.\<close>

definition scan_entry :: "ctx \<Rightarrow> string \<Rightarrow> run_state \<Rightarrow> run_state" where
  "scan_entry c filename st =
     (if accepted filename then
        (case try_file c filename st of
           Done st' \<Rightarrow> st'
         | Raised e st' \<Rightarrow> st'\<lparr>log_file := log_file st' @ [Error filename e]\<rparr>)
      else st)"

text \<open>Line 447: the loop over \<^verbatim>\<open>os.listdir(non_person_dir)\<close>, a list computed
  once before the first iteration.\<close>

fun scan_loop :: "ctx \<Rightarrow> string list \<Rightarrow> run_state \<Rightarrow> run_state" where
  "scan_loop c [] st = st"
| "scan_loop c (filename # filenames) st = scan_loop c filenames (scan_entry c filename st)"

subsection \<open>The entry point\<close>

text \<open>The dataset root as the function sees it: each of the three directories is absent
  or holds entries; a log file holds what was written to it. \<open>detector_calls\<close> records
  the paths given to the detector.\<close>

record world =
  dir0 :: "directory option"
  dir1 :: "directory option"
  logs :: "(string \<times> log_entry list) list option"
  detector_calls :: "string list"

datatype load_failure = NotFound string | OtherFailure string

datatype exn = FileNotFoundError string | RuntimeError string

text \<open>What the function takes from outside: the constructor \<^verbatim>\<open>YOLO\<close> (it raises
  FileNotFoundError, another exception, or returns the detector), the renames the
  operating system refuses (with what follows each), and the clock.\<close>

record env =
  YOLO :: "string \<Rightarrow> load_failure + detector"
  os_refuse :: "string \<Rightarrow> fallback option"
  now :: datetime

definition log_name :: "env \<Rightarrow> string" where
  "log_name ev = ''moved_files_'' @ strftime (now ev) @ ''.txt''"

definition process_mislabeled_images ::
  "env \<Rightarrow> string \<Rightarrow> string \<Rightarrow> real \<Rightarrow> world \<Rightarrow> (exn + nat \<times> string) \<times> world" where
  "process_mislabeled_images ev model_path dataset_root threshold w =
     (case YOLO ev model_path of
        Inl (NotFound e) \<Rightarrow>
          (Inl (FileNotFoundError (''Model file not found at '' @ model_path @ '': '' @ e)), w)
      | Inl (OtherFailure e) \<Rightarrow>
          (Inl (RuntimeError (''Failed to load YOLO model: '' @ e)), w)
      | Inr m \<Rightarrow>
          (let np_dir = path_join dataset_root ''0'';
               p_dir = path_join dataset_root ''1'';
               logs_dir = path_join dataset_root ''logs''
           in case dir0 w of
                None \<Rightarrow> (Inl (FileNotFoundError (''Dataset directory not found: '' @ np_dir)), w)
              | Some np \<Rightarrow>
                 (case dir1 w of
                    None \<Rightarrow> (Inl (FileNotFoundError (''Dataset directory not found: '' @ p_dir)), w)
                  | Some pp \<Rightarrow>
                     (let log_file_path = path_join logs_dir (log_name ev);
                          c = \<lparr>model = m, refuse = os_refuse ev, confidence_threshold = threshold,
                               non_person_dir = np_dir, person_dir = p_dir\<rparr>;
                          st0 = \<lparr>nonperson = np, person = pp, log_file = [Header],
                                 moved_count = 0, calls = detector_calls w\<rparr>;
                          st = scan_loop c (map fst np) st0
                      in (Inr (moved_count st, log_file_path),
                          \<lparr>dir0 = Some (nonperson st), dir1 = Some (person st),
                           logs = Some (AList.update (log_name ev) (log_file st)
                                          (case logs w of None \<Rightarrow> [] | Some l \<Rightarrow> l)),
                           detector_calls = calls st\<rparr>)))))"

subsection \<open>Notions used in the statements\<close>

text \<open>The test of line 456.\<close>

definition qualifies :: "ctx \<Rightarrow> box \<Rightarrow> bool" where
  "qualifies c b = (cls b = 0 \<and> conf b > confidence_threshold c)"

text \<open>The results that follow the first result with a qualifying box.\<close>

definition rest_after :: "ctx \<Rightarrow> box list list \<Rightarrow> box list list" where
  "rest_after c results = tl (dropWhile (\<lambda>r. \<not> list_ex (qualifies c) r) results)"

text \<open>Lines 459 and 460 after a move: the Moved line and the counter.\<close>

definition logged :: "run_state \<Rightarrow> string \<Rightarrow> real \<Rightarrow> run_state" where
  "logged st filename x =
     st\<lparr>log_file := log_file st @ [Moved filename x], moved_count := moved_count st + 1\<rparr>"

text \<open>The entry is accepted and the detector returns a qualifying box for it; the
  operating system lets \<^verbatim>\<open>shutil.move\<close> of the entry complete (by the rename or
  by the fallback); the move would succeed in the state; and what an attempted move of an
  entry with the given content stores under its name in the person directory (nothing
  when the copy raises before it writes), with the message and the state a move that
  raises leaves.\<close>

definition detected :: "ctx \<Rightarrow> string \<Rightarrow> bool" where
  "detected c filename =
     (accepted filename \<and>
      (case model c (path_join (non_person_dir c) filename) of
         Inl e \<Rightarrow> False
       | Inr results \<Rightarrow> list_ex (qualifies c) (concat results)))"

definition completes :: "ctx \<Rightarrow> string \<Rightarrow> bool" where
  "completes c filename = (refuse c filename = None \<or> refuse c filename = Some Completes)"

definition movable :: "ctx \<Rightarrow> run_state \<Rightarrow> string \<Rightarrow> bool" where
  "movable c st filename = (map_of (nonperson st) filename \<noteq> None \<and> completes c filename)"

definition attempt_writes :: "ctx \<Rightarrow> string \<Rightarrow> string \<Rightarrow> string option" where
  "attempt_writes c filename content =
     (case refuse c filename of
        Some (CopyRaises e left) \<Rightarrow> left
      | _ \<Rightarrow> Some content)"

definition failure_message :: "ctx \<Rightarrow> string \<Rightarrow> run_state \<Rightarrow> string" where
  "failure_message c filename st =
     (case map_of (nonperson st) filename of
        None \<Rightarrow> enoent c filename
      | Some content \<Rightarrow>
          (case refuse c filename of
             Some (CopyRaises e left) \<Rightarrow> e
           | Some (UnlinkRaises e) \<Rightarrow> e
           | _ \<Rightarrow> []))"

definition after_failure :: "ctx \<Rightarrow> string \<Rightarrow> run_state \<Rightarrow> run_state" where
  "after_failure c filename st =
     (case map_of (nonperson st) filename of
        None \<Rightarrow> st
      | Some content \<Rightarrow>
          (case attempt_writes c filename content of
             None \<Rightarrow> st
           | Some bytes \<Rightarrow> st\<lparr>person := AList.update filename bytes (person st)\<rparr>))"


text \<open>
  A file is settled when a further attempt to move it changes neither class directory: it
  is gone from the non-person directory, or its move raises and the person directory
  already holds what the attempt writes.
\<close>

definition settled :: "ctx \<Rightarrow> run_state \<Rightarrow> string \<Rightarrow> bool" where
  "settled c st filename =
     (case map_of (nonperson st) filename of
        None \<Rightarrow> True
      | Some content \<Rightarrow>
          \<not> completes c filename \<and>
          (case attempt_writes c filename content of
             None \<Rightarrow> True
           | Some bytes \<Rightarrow> map_of (person st) filename = Some bytes))"

text \<open>The file and the confidence of each Moved line of a log; the files a state's log
  reports as moved.\<close>

fun matches :: "log_entry list \<Rightarrow> (string \<times> real) list" where
  "matches [] = []"
| "matches (Moved f x # es) = (f, x) # matches es"
| "matches (e # es) = matches es"

definition moved_files :: "run_state \<Rightarrow> string set" where
  "moved_files st = fst ` set (matches (log_file st))"



text \<open>The loop's constants and its first state, as the entry point builds them.\<close>

definition run_ctx :: "env \<Rightarrow> detector \<Rightarrow> string \<Rightarrow> real \<Rightarrow> ctx" where
  "run_ctx ev m dataset_root threshold =
     \<lparr>model = m, refuse = os_refuse ev, confidence_threshold = threshold,
      non_person_dir = path_join dataset_root ''0'', person_dir = path_join dataset_root ''1''\<rparr>"

definition start_state :: "directory \<Rightarrow> directory \<Rightarrow> world \<Rightarrow> run_state" where
  "start_state np pp w =
     \<lparr>nonperson = np, person = pp, log_file = [Header], moved_count = 0,
      calls = detector_calls w\<rparr>"

text \<open>The names of the entries of a directory, and of a directory that may be absent.\<close>

definition names :: "directory \<Rightarrow> string set" where
  "names d = fst ` set d"

definition listing :: "directory option \<Rightarrow> string list" where
  "listing d = (case d of None \<Rightarrow> [] | Some es \<Rightarrow> map fst es)"

text \<open>What a run has written to the log file it names (nothing when there is no such
  file).\<close>

definition written_log :: "env \<Rightarrow> world \<Rightarrow> log_entry list" where
  "written_log ev w =
     (case logs w of
        None \<Rightarrow> []
      | Some l \<Rightarrow> (case map_of l (log_name ev) of None \<Rightarrow> [] | Some es \<Rightarrow> es))"

text \<open>The Matches a run has acted on: the file and the confidence of each Moved line of
  its log.\<close>

definition run_matches :: "env \<Rightarrow> string \<Rightarrow> string \<Rightarrow> real \<Rightarrow> world \<Rightarrow> (string \<times> real) list" where
  "run_matches ev model_path dataset_root threshold w =
     matches (written_log ev (snd (process_mislabeled_images ev model_path dataset_root threshold w)))"




subsection \<open>Example inputs\<close>

text \<open>Detectors, clocks and dataset roots for the closed instances below. The dataset root
  is \<^verbatim>\<open>data\<close>; the worlds named \<open>_after\<close> are what a run leaves.\<close>

definition person_box :: "real \<Rightarrow> box" where
  "person_box x = \<lparr>cls = 0, conf = x\<rparr>"

definition ex_now :: datetime where
  "ex_now = \<lparr>year = 2025, month = 1, day = 2, hour = 3, minute = 4, second = 5\<rparr>"

definition ex_env :: "detector \<Rightarrow> env" where
  "ex_env d = \<lparr>YOLO = (\<lambda>p. Inr d), os_refuse = (\<lambda>f. None), now = ex_now\<rparr>"

definition d_all :: detector where
  "d_all p = Inr [[person_box 0.9]]"

definition w_no_person :: world where
  "w_no_person = \<lparr>dir0 = Some [(''a.jpg'', ''A'')], dir1 = None, logs = None, detector_calls = []\<rparr>"

definition d_ab :: detector where
  "d_ab p =
     (if p = ''data/0/a.jpg'' then Inr [[person_box 0.9]]
      else if p = ''data/0/b.PNG'' then Inr [[]]
      else Inl ''cannot identify image file'')"

definition w_ab :: world where
  "w_ab = \<lparr>dir0 = Some [(''a.jpg'', ''A''), (''b.PNG'', ''B''), (''notes.txt'', ''N'')],
           dir1 = Some [], logs = None, detector_calls = []\<rparr>"

definition c_ab :: ctx where
  "c_ab = run_ctx (ex_env d_ab) d_ab ''data'' 0.4"

definition s_ab :: run_state where
  "s_ab = start_state [(''a.jpg'', ''A''), (''b.PNG'', ''B''), (''notes.txt'', ''N'')] [] w_ab"

definition w_ab_after :: world where
  "w_ab_after =
     \<lparr>dir0 = Some [(''b.PNG'', ''B''), (''notes.txt'', ''N'')],
      dir1 = Some [(''a.jpg'', ''A'')],
      logs = Some [(''moved_files_20250102_030405.txt'', [Header, Moved ''a.jpg'' 0.9])],
      detector_calls = [''data/0/a.jpg'', ''data/0/b.PNG'']\<rparr>"

definition d_conf :: "real \<Rightarrow> detector" where
  "d_conf x p = Inr [[person_box x]]"

definition w_one :: world where
  "w_one = \<lparr>dir0 = Some [(''a.jpg'', ''A'')], dir1 = Some [], logs = None, detector_calls = []\<rparr>"

definition d_err :: detector where
  "d_err p =
     (if p = ''data/0/a.jpg'' then Inl ''cannot identify image file''
      else Inr [[person_box 0.5]])"

definition w_err :: world where
  "w_err = \<lparr>dir0 = Some [(''a.jpg'', ''A''), (''b.png'', ''B'')], dir1 = Some [],
            logs = None, detector_calls = []\<rparr>"

definition w_clash :: world where
  "w_clash = \<lparr>dir0 = Some [(''a.jpg'', ''new bytes'')], dir1 = Some [(''a.jpg'', ''old bytes'')],
              logs = None, detector_calls = []\<rparr>"

definition w_clash_after :: world where
  "w_clash_after =
     \<lparr>dir0 = Some [], dir1 = Some [(''a.jpg'', ''new bytes'')],
      logs = Some [(''moved_files_20250102_030405.txt'', [Header, Moved ''a.jpg'' 0.9])],
      detector_calls = [''data/0/a.jpg'']\<rparr>"

definition ex_env_denied :: env where
  "ex_env_denied =
     \<lparr>YOLO = (\<lambda>p. Inr d_all),
      os_refuse = (\<lambda>f. if f = ''a.jpg'' then Some (UnlinkRaises ''[Errno 13] Permission denied'')
                        else None),
      now = ex_now\<rparr>"

definition w_two :: world where
  "w_two = \<lparr>dir0 = Some [(''a.jpg'', ''A''), (''b.png'', ''B'')], dir1 = Some [],
            logs = None, detector_calls = []\<rparr>"

definition w_two_after :: world where
  "w_two_after =
     \<lparr>dir0 = Some [(''a.jpg'', ''A'')], dir1 = Some [(''a.jpg'', ''A''), (''b.png'', ''B'')],
      logs = Some [(''moved_files_20250102_030405.txt'',
                    [Header, Error ''a.jpg'' ''[Errno 13] Permission denied'', Moved ''b.png'' 0.9])],
      detector_calls = [''data/0/a.jpg'', ''data/0/b.png'']\<rparr>"

definition d_two_results :: detector where
  "d_two_results p = Inr [[person_box 0.9], [person_box 0.8]]"

definition w_one_after_two_results :: world where
  "w_one_after_two_results =
     \<lparr>dir0 = Some [], dir1 = Some [(''a.jpg'', ''A'')],
      logs = Some [(''moved_files_20250102_030405.txt'',
                    [Header, Moved ''a.jpg'' 0.9,
                     Error ''a.jpg''
                       (''[Errno 2] No such file or directory: '' @ [quote_char] @
                        ''data/0/a.jpg'' @ [quote_char])])],
      detector_calls = [''data/0/a.jpg'']\<rparr>"

definition d_two_boxes :: detector where
  "d_two_boxes p = Inr [[person_box 0.5, person_box 0.9]]"

definition d_mixed :: detector where
  "d_mixed p = (if p = ''data/0/a.jpg'' then Inr [[person_box 0.5]] else Inr [[person_box 0.9]])"

definition ex_later :: "detector \<Rightarrow> env" where
  "ex_later d = (ex_env d)\<lparr>now := ex_now\<lparr>second := 6\<rparr>\<rparr>"

definition w_ab_rerun :: world where
  "w_ab_rerun =
     \<lparr>dir0 = Some [(''b.PNG'', ''B''), (''notes.txt'', ''N'')],
      dir1 = Some [(''a.jpg'', ''A'')],
      logs = Some [(''moved_files_20250102_030405.txt'', [Header, Moved ''a.jpg'' 0.9]),
                   (''moved_files_20250102_030406.txt'', [Header])],
      detector_calls = [''data/0/a.jpg'', ''data/0/b.PNG'', ''data/0/b.PNG'']\<rparr>"



section \<open>What the loops compute\<close>

lemma find_app: "find P (xs @ ys) = (case find P xs of None \<Rightarrow> find P ys | Some x \<Rightarrow> Some x)"
  by (induction xs) auto

lemma find_None_ex: "find P xs = None \<longleftrightarrow> \<not> list_ex P xs"
  by (induction xs) auto

lemma boxes_loop_find:
  "boxes_loop c f bs st =
     (case find (qualifies c) bs of
        None \<Rightarrow> Done st
      | Some b \<Rightarrow>
          (case shutil_move c f st of
             Raised e s \<Rightarrow> Raised e s
           | Done m \<Rightarrow> Done (logged m f (conf b))))"
  by (induction bs) (auto simp: qualifies_def logged_def Let_def split: outcome.splits)

lemma results_loop_gone:
  "map_of (nonperson st) f = None \<Longrightarrow>
   results_loop c f rs st =
     (if list_ex (qualifies c) (concat rs) then Raised (enoent c f) st else Done st)"
proof (induction rs)
  case Nil
  then show ?case by simp
next
  case (Cons r rs)
  have mv: "shutil_move c f st = Raised (enoent c f) st"
    using Cons.prems by (simp add: shutil_move_def)
  show ?case
  proof (cases "find (qualifies c) r")
    case None
    then have "\<not> list_ex (qualifies c) r" by (simp add: find_None_ex)
    with None Cons show ?thesis by (simp add: boxes_loop_find)
  next
    case (Some b)
    then have "list_ex (qualifies c) r"
      using find_None_ex [of "qualifies c" r] by auto
    with Some mv show ?thesis by (simp add: boxes_loop_find)
  qed
qed

lemma shutil_move_gone:
  "shutil_move c f st = Done m \<Longrightarrow> map_of (nonperson (logged m f x)) f = None"
  by (auto simp: shutil_move_def logged_def AList.delete_conv
           split: option.splits fallback.splits)

lemma results_loop_find:
  "results_loop c f rs st =
     (case find (qualifies c) (concat rs) of
        None \<Rightarrow> Done st
      | Some b \<Rightarrow>
          (case shutil_move c f st of
             Raised e s \<Rightarrow> Raised e s
           | Done m \<Rightarrow>
               (if list_ex (qualifies c) (concat (rest_after c rs))
                then Raised (enoent c f) (logged m f (conf b))
                else Done (logged m f (conf b)))))"
proof (induction rs)
  case Nil
  then show ?case by simp
next
  case (Cons r rs)
  show ?case
  proof (cases "find (qualifies c) r")
    case None
    then have "\<not> list_ex (qualifies c) r" by (simp add: find_None_ex)
    then have ra: "rest_after c (r # rs) = rest_after c rs" by (simp add: rest_after_def)
    from None Cons show ?thesis unfolding ra by (simp add: boxes_loop_find find_app)
  next
    case (Some b)
    then have ex: "list_ex (qualifies c) r"
      using find_None_ex [of "qualifies c" r] by auto
    then have ra: "rest_after c (r # rs) = rs" by (simp add: rest_after_def)
    show ?thesis
    proof (cases "shutil_move c f st")
      case (Raised e s)
      with Some show ?thesis by (simp add: boxes_loop_find find_app)
    next
      case (Done m)
      from shutil_move_gone [OF Done]
      have "results_loop c f rs (logged m f (conf b)) =
              (if list_ex (qualifies c) (concat rs) then Raised (enoent c f) (logged m f (conf b))
               else Done (logged m f (conf b)))"
        by (rule results_loop_gone)
      with Some Done ra show ?thesis by (simp add: boxes_loop_find find_app)
    qed
  qed
qed

lemma scan_entry_eq:
  "scan_entry c f st =
     (if \<not> accepted f then st
      else
        (let st1 = st\<lparr>calls := calls st @ [path_join (non_person_dir c) f]\<rparr>
         in case model c (path_join (non_person_dir c) f) of
              Inl e \<Rightarrow> st1\<lparr>log_file := log_file st1 @ [Error f e]\<rparr>
            | Inr rs \<Rightarrow>
                (case find (qualifies c) (concat rs) of
                   None \<Rightarrow> st1
                 | Some b \<Rightarrow>
                     (case shutil_move c f st1 of
                        Raised e s \<Rightarrow> s\<lparr>log_file := log_file s @ [Error f e]\<rparr>
                      | Done m \<Rightarrow>
                          (if list_ex (qualifies c) (concat (rest_after c rs))
                           then (logged m f (conf b))
                                  \<lparr>log_file := log_file (logged m f (conf b)) @ [Error f (enoent c f)]\<rparr>
                           else logged m f (conf b))))))"
  by (simp add: scan_entry_def try_file_def results_loop_find Let_def
           split: sum.split option.split outcome.split)

lemma matches_append: "matches (xs @ ys) = matches xs @ matches ys"
  by (induction xs rule: matches.induct) auto


lemma list_ex_find: "list_ex P xs \<longleftrightarrow> (\<exists>b. find P xs = Some b)"
  by (induction xs) auto

lemma detected_find:
  "detected c f \<longleftrightarrow>
     accepted f \<and> (\<exists>rs b. model c (path_join (non_person_dir c) f) = Inr rs \<and>
                      find (qualifies c) (concat rs) = Some b)"
  by (auto simp: detected_def list_ex_find split: sum.splits)

lemma shutil_move_movable:
  "shutil_move c f st =
     (if movable c st f
      then Done (st\<lparr>nonperson := AList.delete f (nonperson st),
                    person := AList.update f (the (map_of (nonperson st) f)) (person st)\<rparr>)
      else Raised (failure_message c f st) (after_failure c f st))"
  by (auto simp: shutil_move_def movable_def completes_def failure_message_def
        after_failure_def attempt_writes_def split: option.splits fallback.splits)

lemma movable_calls [simp]: "movable c (st\<lparr>calls := x\<rparr>) f = movable c st f"
  by (simp add: movable_def)

lemma after_failure_frame [simp]:
  "nonperson (after_failure c f st) = nonperson st"
  "log_file (after_failure c f st) = log_file st"
  "moved_count (after_failure c f st) = moved_count st"
  "calls (after_failure c f st) = calls st"
  by (simp_all add: after_failure_def split: option.split)

lemma after_failure_calls [simp]:
  "after_failure c f (st\<lparr>calls := x\<rparr>) = (after_failure c f st)\<lparr>calls := x\<rparr>"
  "failure_message c f (st\<lparr>calls := x\<rparr>) = failure_message c f st"
  by (simp_all add: after_failure_def failure_message_def split: option.split)

lemma after_failure_person:
  "person (after_failure c f st) =
     (case map_of (nonperson st) f of
        None \<Rightarrow> person st
      | Some d \<Rightarrow>
          (case attempt_writes c f d of
             None \<Rightarrow> person st
           | Some b \<Rightarrow> AList.update f b (person st)))"
  by (simp add: after_failure_def split: option.split)

lemma attempt_writes_completes: "completes c f \<Longrightarrow> attempt_writes c f d = Some d"
  by (auto simp: completes_def attempt_writes_def)

lemma scan_entry_calls:
  "calls (scan_entry c f st) =
     calls st @ (if accepted f then [path_join (non_person_dir c) f] else [])"
  by (simp add: scan_entry_eq shutil_move_movable logged_def Let_def split: sum.split option.split)

lemma scan_entry_nonperson:
  "nonperson (scan_entry c f st) =
     (if detected c f \<and> movable c st f then AList.delete f (nonperson st) else nonperson st)"
  by (auto simp: scan_entry_eq shutil_move_movable logged_def Let_def detected_find
           split: sum.split option.split)

lemma scan_entry_person:
  "person (scan_entry c f st) =
     (if detected c f
      then (case map_of (nonperson st) f of
              None \<Rightarrow> person st
            | Some d \<Rightarrow>
                (case attempt_writes c f d of
                   None \<Rightarrow> person st
                 | Some b \<Rightarrow> AList.update f b (person st)))
      else person st)"
proof (cases "detected c f")
  case False
  then show ?thesis
    by (auto simp: scan_entry_eq Let_def detected_find split: sum.split option.split)
next
  case True
  then obtain rs b where a: "accepted f" "model c (path_join (non_person_dir c) f) = Inr rs"
    "find (qualifies c) (concat rs) = Some b"
    unfolding detected_find by blast
  show ?thesis
  proof (cases "movable c st f")
    case False
    with True a show ?thesis
      by (simp add: scan_entry_eq shutil_move_movable Let_def after_failure_person)
  next
    case m: True
    then obtain d where d: "map_of (nonperson st) f = Some d" "completes c f"
      by (auto simp: movable_def)
    with True a m show ?thesis
      by (simp add: scan_entry_eq shutil_move_movable Let_def logged_def
            attempt_writes_completes)
  qed
qed

lemma scan_entry_moved_count:
  "moved_count (scan_entry c f st) =
     moved_count st + (if detected c f \<and> movable c st f then 1 else 0)"
  by (auto simp: scan_entry_eq shutil_move_movable logged_def Let_def detected_find
           split: sum.split option.split)

lemma scan_entry_matches:
  "map fst (matches (log_file (scan_entry c f st))) =
     map fst (matches (log_file st)) @ (if detected c f \<and> movable c st f then [f] else [])"
  by (auto simp: scan_entry_eq shutil_move_movable logged_def Let_def detected_find matches_append
           split: sum.split option.split)

lemma scan_loop_calls:
  "calls (scan_loop c fs st) = calls st @ map (path_join (non_person_dir c)) (filter accepted fs)"
  by (induction fs arbitrary: st) (auto simp: scan_entry_calls)

lemma scan_loop_filter: "scan_loop c fs st = scan_loop c (filter accepted fs) st"
  by (induction fs arbitrary: st) (auto simp: scan_entry_def)



lemma movable_scan_entry:
  "movable c (scan_entry c f st) g \<longleftrightarrow>
     movable c st g \<and> \<not> (g = f \<and> detected c f \<and> movable c st f)"
  by (auto simp: movable_def scan_entry_nonperson AList.delete_conv)

lemma moved_files_scan_entry:
  "moved_files (scan_entry c f st) =
     moved_files st \<union> (if detected c f \<and> movable c st f then {f} else {})"
proof -
  have "moved_files (scan_entry c f st) = set (map fst (matches (log_file (scan_entry c f st))))"
    by (simp add: moved_files_def)
  also have "\<dots> = set (map fst (matches (log_file st))) \<union>
                  (if detected c f \<and> movable c st f then {f} else {})"
    unfolding scan_entry_matches by auto
  finally show ?thesis by (simp add: moved_files_def)
qed

lemma moved_files_scan_loop:
  "moved_files (scan_loop c fs st) =
     moved_files st \<union> {f \<in> set fs. detected c f \<and> movable c st f}"
proof (induction fs arbitrary: st)
  case Nil
  then show ?case by simp
next
  case (Cons f fs)
  show ?case
    unfolding scan_loop.simps Cons moved_files_scan_entry movable_scan_entry
    by auto
qed

lemma names_scan_entry:
  "names (nonperson (scan_entry c f st)) =
     names (nonperson st) - (if detected c f \<and> movable c st f then {f} else {})"
  by (auto simp: names_def scan_entry_nonperson AList.delete_eq)

lemma names_movable: "f \<in> names (nonperson st) \<longleftrightarrow> map_of (nonperson st) f \<noteq> None"
  by (simp add: names_def map_of_eq_None_iff)

lemma names_scan_loop:
  "names (nonperson (scan_loop c fs st)) =
     names (nonperson st) - {f \<in> set fs. detected c f \<and> completes c f}"
proof (induction fs arbitrary: st)
  case Nil
  then show ?case by simp
next
  case (Cons f fs)
  show ?case
    unfolding scan_loop.simps Cons names_scan_entry
    by (auto simp: movable_def names_movable)
qed

lemma names_person_scan_entry:
  "names (person st) \<union> (if detected c f \<and> movable c st f then {f} else {})
     \<subseteq> names (person (scan_entry c f st))"
proof -
  have "detected c f \<and> movable c st f \<Longrightarrow> f \<in> names (person (scan_entry c f st))"
    by (auto simp: names_def scan_entry_person AList.dom_update movable_def
          attempt_writes_completes)
  moreover have "names (person st) \<subseteq> names (person (scan_entry c f st))"
    by (auto simp: names_def scan_entry_person AList.dom_update split: option.split)
  ultimately show ?thesis by auto
qed

lemma names_person_scan_loop:
  "names (person st) \<union> {f \<in> set fs. detected c f \<and> movable c st f}
     \<subseteq> names (person (scan_loop c fs st))"
proof (induction fs arbitrary: st)
  case Nil
  then show ?case by simp
next
  case (Cons f fs)
  let ?s = "scan_entry c f st"
  have ih: "names (person ?s) \<union> {g \<in> set fs. detected c g \<and> movable c ?s g}
              \<subseteq> names (person (scan_loop c fs ?s))"
    by (rule Cons)
  have st: "names (person st) \<union> (if detected c f \<and> movable c st f then {f} else {})
              \<subseteq> names (person ?s)"
    by (rule names_person_scan_entry)
  show ?case
  proof
    fix x
    assume x: "x \<in> names (person st) \<union> {g \<in> set (f # fs). detected c g \<and> movable c st g}"
    show "x \<in> names (person (scan_loop c (f # fs) st))"
    proof (cases "x \<in> names (person ?s)")
      case True
      with ih show ?thesis by auto
    next
      case False
      with st x have "x \<in> set fs" "detected c x" "movable c st x"
        "\<not> (x = f \<and> detected c f \<and> movable c st f)"
        by (auto split: if_splits)
      then have "movable c ?s x" by (simp add: movable_scan_entry)
      with \<open>x \<in> set fs\<close> \<open>detected c x\<close> ih show ?thesis by auto
    qed
  qed
qed

lemma process_ok:
  assumes "YOLO ev mp = Inr m" "dir0 w = Some np" "dir1 w = Some pp"
  shows "process_mislabeled_images ev mp rt t w =
           (Inr (moved_count (scan_loop (run_ctx ev m rt t) (map fst np) (start_state np pp w)),
                 path_join (path_join rt ''logs'') (log_name ev)),
            \<lparr>dir0 = Some (nonperson (scan_loop (run_ctx ev m rt t) (map fst np) (start_state np pp w))),
             dir1 = Some (person (scan_loop (run_ctx ev m rt t) (map fst np) (start_state np pp w))),
             logs = Some (AList.update (log_name ev)
                      (log_file (scan_loop (run_ctx ev m rt t) (map fst np) (start_state np pp w)))
                      (case logs w of None \<Rightarrow> [] | Some l \<Rightarrow> l)),
             detector_calls = calls (scan_loop (run_ctx ev m rt t) (map fst np) (start_state np pp w))\<rparr>)"
  using assms
  by (simp add: process_mislabeled_images_def run_ctx_def start_state_def Let_def)

lemma process_Inr:
  assumes "process_mislabeled_images ev mp rt t w = (Inr r, w')"
  shows "\<exists>m np pp. YOLO ev mp = Inr m \<and> dir0 w = Some np \<and> dir1 w = Some pp"
  using assms
  by (auto simp: process_mislabeled_images_def Let_def
           split: sum.splits load_failure.splits option.splits)

lemma written_log_process:
  assumes "YOLO ev mp = Inr m" "dir0 w = Some np" "dir1 w = Some pp"
  shows "written_log ev (snd (process_mislabeled_images ev mp rt t w)) =
           log_file (scan_loop (run_ctx ev m rt t) (map fst np) (start_state np pp w))"
  by (simp add: process_ok [OF assms] written_log_def AList.update_conv)

lemma set_matches: "(f, x) \<in> set (matches es) \<longleftrightarrow> Moved f x \<in> set es"
  by (induction es rule: matches.induct) auto

lemma moved_files_start [simp]: "moved_files (start_state np pp w) = {}"
  by (simp add: moved_files_def start_state_def)

lemma endswith_iff: "endswith s suf \<longleftrightarrow> (\<exists>stem. s = stem @ suf)"
proof
  assume "endswith s suf"
  then have "s = take (length s - length suf) s @ suf"
    by (metis append_take_drop_id endswith_def)
  then show "\<exists>stem. s = stem @ suf" ..
next
  assume "\<exists>stem. s = stem @ suf"
  then show "endswith s suf" by (auto simp: endswith_def)
qed

lemma endswith_lower:
  "endswith (lower f) ext \<longleftrightarrow> (\<exists>stem e. f = stem @ e \<and> lower e = ext)"
proof
  assume "endswith (lower f) ext"
  then obtain s where s: "map lower_char f = s @ ext"
    by (auto simp: endswith_iff lower_def)
  then have "f = take (length s) f @ drop (length s) f \<and> lower (drop (length s) f) = ext"
    by (metis append_eq_conv_conj append_take_drop_id drop_map lower_def)
  then show "\<exists>stem e. f = stem @ e \<and> lower e = ext" by blast
next
  assume "\<exists>stem e. f = stem @ e \<and> lower e = ext"
  then show "endswith (lower f) ext"
    by (auto simp: endswith_iff lower_def)
qed

lemma accepted_iff:
  "accepted f \<longleftrightarrow> (\<exists>stem e. f = stem @ e \<and> lower e \<in> {''.jpg'', ''.jpeg'', ''.png''})"
  unfolding accepted_def Let_def endswith_lower by blast

section \<open>Fatal errors\<close>

text \<open>
  C6. When the non-person directory \<^verbatim>\<open>0\<close> or the person directory \<^verbatim>\<open>1\<close> is
  missing under the dataset root, the run ends with an exception and the world is the one
  it started in: no entry was read or moved, the detector was never called and no log
  file was written. When the model loads, the exception is the FileNotFoundError of line
  435 for the first missing directory.
\<close>

theorem missing_class_directory_aborts:
  assumes "dir0 w = None \<or> dir1 w = None"
  shows "(\<exists>e. process_mislabeled_images ev mp rt t w = (Inl e, w)) \<and>
         (\<forall>m. YOLO ev mp = Inr m \<longrightarrow>
            process_mislabeled_images ev mp rt t w =
              (Inl (FileNotFoundError (''Dataset directory not found: '' @
                      path_join rt (if dir0 w = None then ''0'' else ''1''))), w))"
  using assms
  by (auto simp: process_mislabeled_images_def Let_def
           split: sum.splits load_failure.splits option.splits)

theorem missing_class_directory_aborts_witness:
  "dir1 w_no_person = None \<and>
   process_mislabeled_images (ex_env d_all) ''yolo11x.pt'' ''data'' 0.4 w_no_person =
     (Inl (FileNotFoundError ''Dataset directory not found: data/1''), w_no_person)"
proof -
  have h: "dir0 w_no_person = None \<or> dir1 w_no_person = None"
    by (simp add: w_no_person_def)
  have y: "YOLO (ex_env d_all) ''yolo11x.pt'' = Inr d_all"
    by (simp add: ex_env_def)
  from missing_class_directory_aborts [OF h, of "ex_env d_all" "''yolo11x.pt''" "''data''" "0.4"] y
  show ?thesis by (simp add: w_no_person_def path_join_def)
qed

section \<open>Which entries are scanned\<close>

lemma lower_dot: "lower_char x = CHR ''.'' \<longleftrightarrow> x = CHR ''.''"
proof -
  have "\<forall>x. lower_char x = CHR ''.'' \<longleftrightarrow> x = CHR ''.''" by code_simp
  then show ?thesis by blast
qed

lemma lower_j: "lower_char x = CHR ''j'' \<longleftrightarrow> x = CHR ''j'' \<or> x = CHR ''J''"
proof -
  have "\<forall>x. lower_char x = CHR ''j'' \<longleftrightarrow> x = CHR ''j'' \<or> x = CHR ''J''" by code_simp
  then show ?thesis by blast
qed

lemma lower_p: "lower_char x = CHR ''p'' \<longleftrightarrow> x = CHR ''p'' \<or> x = CHR ''P''"
proof -
  have "\<forall>x. lower_char x = CHR ''p'' \<longleftrightarrow> x = CHR ''p'' \<or> x = CHR ''P''" by code_simp
  then show ?thesis by blast
qed

lemma lower_e: "lower_char x = CHR ''e'' \<longleftrightarrow> x = CHR ''e'' \<or> x = CHR ''E''"
proof -
  have "\<forall>x. lower_char x = CHR ''e'' \<longleftrightarrow> x = CHR ''e'' \<or> x = CHR ''E''" by code_simp
  then show ?thesis by blast
qed

lemma lower_g: "lower_char x = CHR ''g'' \<longleftrightarrow> x = CHR ''g'' \<or> x = CHR ''G''"
proof -
  have "\<forall>x. lower_char x = CHR ''g'' \<longleftrightarrow> x = CHR ''g'' \<or> x = CHR ''G''" by code_simp
  then show ?thesis by blast
qed

lemma lower_n: "lower_char x = CHR ''n'' \<longleftrightarrow> x = CHR ''n'' \<or> x = CHR ''N''"
proof -
  have "\<forall>x. lower_char x = CHR ''n'' \<longleftrightarrow> x = CHR ''n'' \<or> x = CHR ''N''" by code_simp
  then show ?thesis by blast
qed

lemma map4:
  "map f e = [a, b, c, d] \<longleftrightarrow> (\<exists>w x y z. e = [w, x, y, z] \<and> f w = a \<and> f x = b \<and> f y = c \<and> f z = d)"
  by (auto simp: map_eq_Cons_conv)

lemma map5:
  "map f e = [a, b, c, d, g] \<longleftrightarrow>
     (\<exists>v w x y z. e = [v, w, x, y, z] \<and> f v = a \<and> f w = b \<and> f x = c \<and> f y = d \<and> f z = g)"
  by (auto simp: map_eq_Cons_conv)

lemma lower_jpg:
  "lower e = ''.jpg'' \<longleftrightarrow>
     (\<exists>j p g. e = [CHR ''.'', j, p, g] \<and> (j = CHR ''j'' \<or> j = CHR ''J'') \<and>
        (p = CHR ''p'' \<or> p = CHR ''P'') \<and> (g = CHR ''g'' \<or> g = CHR ''G''))"
  unfolding lower_def map4 lower_dot lower_j lower_p lower_g by blast

lemma lower_jpeg:
  "lower e = ''.jpeg'' \<longleftrightarrow>
     (\<exists>j p e' g. e = [CHR ''.'', j, p, e', g] \<and> (j = CHR ''j'' \<or> j = CHR ''J'') \<and>
        (p = CHR ''p'' \<or> p = CHR ''P'') \<and> (e' = CHR ''e'' \<or> e' = CHR ''E'') \<and>
        (g = CHR ''g'' \<or> g = CHR ''G''))"
  unfolding lower_def map5 lower_dot lower_j lower_p lower_e lower_g by blast

lemma lower_png:
  "lower e = ''.png'' \<longleftrightarrow>
     (\<exists>p n g. e = [CHR ''.'', p, n, g] \<and> (p = CHR ''p'' \<or> p = CHR ''P'') \<and>
        (n = CHR ''n'' \<or> n = CHR ''N'') \<and> (g = CHR ''g'' \<or> g = CHR ''G''))"
  unfolding lower_def map4 lower_dot lower_p lower_n lower_g by blast

lemma process_calls:
  assumes "YOLO ev mp = Inr m" "dir0 w = Some np" "dir1 w = Some pp"
  shows "detector_calls (snd (process_mislabeled_images ev mp rt t w)) =
           detector_calls w @ map (path_join (path_join rt ''0'')) (filter accepted (listing (dir0 w)))"
  by (simp add: process_ok [OF assms] scan_loop_calls run_ctx_def start_state_def listing_def assms)

text \<open>
  C9. The scan processes exactly the entries of the non-person directory whose names end,
  whatever the case of the letters, with \<^verbatim>\<open>.jpg\<close>, \<^verbatim>\<open>.jpeg\<close> or
  \<^verbatim>\<open>.png\<close>. An entry is accepted exactly when it ends with one of the three
  extensions with each letter in either case; the detector is called on the accepted
  entries, in listing order, and on nothing else; an entry that is not accepted leaves the
  state as it is (no move, no log line, no error), so the scan of a listing is the scan of
  its accepted entries.
\<close>

theorem only_image_entries_are_processed:
  "(accepted f \<longleftrightarrow>
      (\<exists>stem e. f = stem @ e \<and>
         ((\<exists>j p g. e = [CHR ''.'', j, p, g] \<and> (j = CHR ''j'' \<or> j = CHR ''J'') \<and>
             (p = CHR ''p'' \<or> p = CHR ''P'') \<and> (g = CHR ''g'' \<or> g = CHR ''G'')) \<or>
          (\<exists>j p e' g. e = [CHR ''.'', j, p, e', g] \<and> (j = CHR ''j'' \<or> j = CHR ''J'') \<and>
             (p = CHR ''p'' \<or> p = CHR ''P'') \<and> (e' = CHR ''e'' \<or> e' = CHR ''E'') \<and>
             (g = CHR ''g'' \<or> g = CHR ''G'')) \<or>
          (\<exists>p n g. e = [CHR ''.'', p, n, g] \<and> (p = CHR ''p'' \<or> p = CHR ''P'') \<and>
             (n = CHR ''n'' \<or> n = CHR ''N'') \<and> (g = CHR ''g'' \<or> g = CHR ''G''))))) \<and>
   (\<not> accepted f \<longrightarrow> scan_entry c f st = st) \<and>
   scan_loop c fs st = scan_loop c (filter accepted fs) st \<and>
   calls (scan_loop c fs st) = calls st @ map (path_join (non_person_dir c)) (filter accepted fs) \<and>
   (YOLO ev mp = Inr m \<and> dir0 w \<noteq> None \<and> dir1 w \<noteq> None \<longrightarrow>
      detector_calls (snd (process_mislabeled_images ev mp rt t w)) =
        detector_calls w @
        map (path_join (path_join rt ''0'')) (filter accepted (listing (dir0 w))))"
proof -
  have a: "accepted f \<longleftrightarrow>
      (\<exists>stem e. f = stem @ e \<and> (lower e = ''.jpg'' \<or> lower e = ''.jpeg'' \<or> lower e = ''.png''))"
    unfolding accepted_iff by simp
  have b: "\<not> accepted f \<longrightarrow> scan_entry c f st = st"
    by (simp add: scan_entry_def)
  have d: "YOLO ev mp = Inr m \<and> dir0 w \<noteq> None \<and> dir1 w \<noteq> None \<longrightarrow>
      detector_calls (snd (process_mislabeled_images ev mp rt t w)) =
        detector_calls w @
        map (path_join (path_join rt ''0'')) (filter accepted (listing (dir0 w)))"
    using process_calls [of ev mp m w] by auto
  show ?thesis
  proof (intro conjI)
    show "accepted f \<longleftrightarrow>
      (\<exists>stem e. f = stem @ e \<and>
         ((\<exists>j p g. e = [CHR ''.'', j, p, g] \<and> (j = CHR ''j'' \<or> j = CHR ''J'') \<and>
             (p = CHR ''p'' \<or> p = CHR ''P'') \<and> (g = CHR ''g'' \<or> g = CHR ''G'')) \<or>
          (\<exists>j p e' g. e = [CHR ''.'', j, p, e', g] \<and> (j = CHR ''j'' \<or> j = CHR ''J'') \<and>
             (p = CHR ''p'' \<or> p = CHR ''P'') \<and> (e' = CHR ''e'' \<or> e' = CHR ''E'') \<and>
             (g = CHR ''g'' \<or> g = CHR ''G'')) \<or>
          (\<exists>p n g. e = [CHR ''.'', p, n, g] \<and> (p = CHR ''p'' \<or> p = CHR ''P'') \<and>
             (n = CHR ''n'' \<or> n = CHR ''N'') \<and> (g = CHR ''g'' \<or> g = CHR ''G''))))"
      unfolding a lower_jpg lower_jpeg lower_png by (rule refl)
    show "\<not> accepted f \<longrightarrow> scan_entry c f st = st" by (rule b)
    show "scan_loop c fs st = scan_loop c (filter accepted fs) st" by (rule scan_loop_filter)
    show "calls (scan_loop c fs st) =
            calls st @ map (path_join (non_person_dir c)) (filter accepted fs)"
      by (rule scan_loop_calls)
    show "YOLO ev mp = Inr m \<and> dir0 w \<noteq> None \<and> dir1 w \<noteq> None \<longrightarrow>
      detector_calls (snd (process_mislabeled_images ev mp rt t w)) =
        detector_calls w @
        map (path_join (path_join rt ''0'')) (filter accepted (listing (dir0 w)))"
      by (rule d)
  qed
qed

theorem only_image_entries_are_processed_witness:
  "\<not> accepted ''notes.txt'' \<and> accepted ''b.PNG'' \<and>
   scan_entry c_ab ''notes.txt'' s_ab = s_ab \<and>
   detector_calls (snd (process_mislabeled_images (ex_env d_ab) ''yolo11x.pt'' ''data'' 0.4 w_ab)) =
     [''data/0/a.jpg'', ''data/0/b.PNG'']"
proof -
  have n: "\<not> accepted ''notes.txt''" by code_simp
  have p: "accepted ''b.PNG''" by code_simp
  have j: "accepted ''a.jpg''" by code_simp
  have y: "YOLO (ex_env d_ab) ''yolo11x.pt'' = Inr d_ab \<and> dir0 w_ab \<noteq> None \<and> dir1 w_ab \<noteq> None"
    by (simp add: ex_env_def w_ab_def)
  note T = only_image_entries_are_processed
         [of "''notes.txt''" c_ab s_ab "[]" "ex_env d_ab" "''yolo11x.pt''" d_ab w_ab "''data''" "0.4"]
  from T [THEN conjunct2, THEN conjunct1] n
  have 1: "scan_entry c_ab ''notes.txt'' s_ab = s_ab" by (rule mp)
  from T [THEN conjunct2, THEN conjunct2, THEN conjunct2, THEN conjunct2] y
  have 2: "detector_calls (snd (process_mislabeled_images (ex_env d_ab) ''yolo11x.pt'' ''data'' 0.4 w_ab)) =
          detector_calls w_ab @
          map (path_join (path_join ''data'' ''0'')) (filter accepted (listing (dir0 w_ab)))"
    by (rule mp)
  from 1 2 show ?thesis
    using n p j by (simp add: w_ab_def listing_def path_join_def)
qed

section \<open>The counter and the log\<close>

lemma find_SomeD: "find P xs = Some b \<Longrightarrow> b \<in> set xs \<and> P b"
  by (induction xs) (auto split: if_splits)

lemma scan_entry_new:
  "\<exists>new. log_file (scan_entry c f st) = log_file st @ new \<and>
         length (filter is_Moved new) = (if detected c f \<and> movable c st f then 1 else 0) \<and>
         (\<forall>g x. Moved g x \<in> set new \<longrightarrow>
            g = f \<and> accepted f \<and>
            (\<exists>rs b. model c (path_join (non_person_dir c) f) = Inr rs \<and> b \<in> set (concat rs) \<and>
               cls b = 0 \<and> conf b = x \<and> confidence_threshold c < x))"
proof (cases "accepted f")
  case False
  then show ?thesis by (simp add: scan_entry_def detected_def)
next
  case acc: True
  show ?thesis
  proof (cases "model c (path_join (non_person_dir c) f)")
    case (Inl e)
    with acc have "log_file (scan_entry c f st) = log_file st @ [Error f e]"
      by (simp add: scan_entry_eq)
    moreover from Inl have "\<not> detected c f" by (simp add: detected_def)
    ultimately show ?thesis by simp
  next
    case (Inr rs)
    show ?thesis
    proof (cases "find (qualifies c) (concat rs)")
      case None
      with acc Inr have "log_file (scan_entry c f st) = log_file st @ []"
        by (simp add: scan_entry_eq)
      moreover from None Inr have "\<not> detected c f" by (simp add: detected_find)
      ultimately show ?thesis by simp
    next
      case (Some b)
      from find_SomeD [OF Some] have b: "b \<in> set (concat rs)" "cls b = 0" "confidence_threshold c < conf b"
        by (simp_all add: qualifies_def)
      from Some Inr acc have det: "detected c f" by (simp add: detected_find)
      show ?thesis
      proof (cases "movable c st f")
        case False
        with acc Inr Some have "\<exists>e. log_file (scan_entry c f st) = log_file st @ [Error f e]"
          by (simp add: scan_entry_eq shutil_move_movable Let_def)
        with False show ?thesis by auto
      next
        case True
        with acc Inr Some
        have "log_file (scan_entry c f st) = log_file st @ [Moved f (conf b)] \<or>
              log_file (scan_entry c f st) = log_file st @ [Moved f (conf b), Error f (enoent c f)]"
          by (simp add: scan_entry_eq shutil_move_movable logged_def Let_def)
        then show ?thesis
        proof
          assume l: "log_file (scan_entry c f st) = log_file st @ [Moved f (conf b)]"
          show ?thesis
            apply (rule exI [of _ "[Moved f (conf b)]"])
            using l det True acc Inr b by auto
        next
          assume l: "log_file (scan_entry c f st) = log_file st @ [Moved f (conf b), Error f (enoent c f)]"
          show ?thesis
            apply (rule exI [of _ "[Moved f (conf b), Error f (enoent c f)]"])
            using l det True acc Inr b by auto
        qed
      qed
    qed
  qed
qed


lemma process_moved_places:
  assumes "YOLO ev mp = Inr m" "dir0 w = Some np" "dir1 w = Some pp"
    and "Moved f x \<in> set (written_log ev (snd (process_mislabeled_images ev mp rt t w)))"
  shows "f \<in> set (listing (dir1 (snd (process_mislabeled_images ev mp rt t w)))) \<and>
         f \<notin> set (listing (dir0 (snd (process_mislabeled_images ev mp rt t w))))"
proof -
  let ?c = "run_ctx ev m rt t"
  let ?s = "start_state np pp w"
  let ?st = "scan_loop ?c (map fst np) ?s"
  have a3: "YOLO ev mp = Inr m" "dir0 w = Some np" "dir1 w = Some pp" by fact+
  from assms(4) have "Moved f x \<in> set (log_file ?st)"
    unfolding written_log_process [OF a3] .
  then have "f \<in> moved_files ?st"
    unfolding moved_files_def using set_matches [of f x "log_file ?st"] by force
  then have m: "f \<in> set (map fst np)" "detected ?c f" "movable ?c ?s f"
    unfolding moved_files_scan_loop by simp_all
  from m have "f \<in> names (person ?st)"
    using names_person_scan_loop [where st = ?s and c = ?c and fs = "map fst np"] by auto
  moreover from m have "f \<notin> names (nonperson ?st)"
    unfolding names_scan_loop by (simp add: movable_def)
  ultimately show ?thesis
    by (simp add: process_ok [OF a3] listing_def names_def)
qed



section \<open>The threshold\<close>

lemma find_None_all: "(\<forall>b \<in> set xs. \<not> P b) \<Longrightarrow> find P xs = None"
  by (induction xs) auto

text \<open>
  C5. The comparison with the threshold is strict. Every Moved line an iteration writes
  carries the confidence of a box of the detector's output for that file whose class is
  0 (the person class) and whose confidence is greater than the threshold. A file none of
  whose person boxes is above the threshold (in particular one whose confidences equal the
  threshold) is left where it is: the iteration only records the detector call, and the
  loop over boxes that all have exactly the threshold confidence completes without a
  move. With threshold 0.40 a person box of confidence 0.40 moves nothing and one of
  confidence 0.41 moves the file.
\<close>

theorem threshold_is_strict:
  "(\<exists>new. log_file (scan_entry c f st) = log_file st @ new \<and>
      (\<forall>g x. Moved g x \<in> set new \<longrightarrow>
         g = f \<and>
         (\<exists>rs b. model c (path_join (non_person_dir c) f) = Inr rs \<and> b \<in> set (concat rs) \<and>
            cls b = 0 \<and> conf b = x \<and> confidence_threshold c < x))) \<and>
   (accepted f \<and> model c (path_join (non_person_dir c) f) = Inr rs \<and>
      (\<forall>b \<in> set (concat rs). cls b = 0 \<longrightarrow> conf b \<le> confidence_threshold c) \<longrightarrow>
      scan_entry c f st = st\<lparr>calls := calls st @ [path_join (non_person_dir c) f]\<rparr>) \<and>
   ((\<forall>b \<in> set bs. conf b = confidence_threshold c) \<longrightarrow> boxes_loop c f bs st = Done st) \<and>
   fst (process_mislabeled_images (ex_env (d_conf 0.40)) ''yolo11x.pt'' ''data'' 0.40 w_one) =
     Inr (0, ''data/logs/moved_files_20250102_030405.txt'') \<and>
   fst (process_mislabeled_images (ex_env (d_conf 0.41)) ''yolo11x.pt'' ''data'' 0.40 w_one) =
     Inr (1, ''data/logs/moved_files_20250102_030405.txt'')"
proof (intro conjI)
  from scan_entry_new [of c f st]
  show "\<exists>new. log_file (scan_entry c f st) = log_file st @ new \<and>
      (\<forall>g x. Moved g x \<in> set new \<longrightarrow>
         g = f \<and>
         (\<exists>rs b. model c (path_join (non_person_dir c) f) = Inr rs \<and> b \<in> set (concat rs) \<and>
            cls b = 0 \<and> conf b = x \<and> confidence_threshold c < x))"
    by blast
next
  show "accepted f \<and> model c (path_join (non_person_dir c) f) = Inr rs \<and>
      (\<forall>b \<in> set (concat rs). cls b = 0 \<longrightarrow> conf b \<le> confidence_threshold c) \<longrightarrow>
      scan_entry c f st = st\<lparr>calls := calls st @ [path_join (non_person_dir c) f]\<rparr>"
  proof (intro impI, elim conjE)
    assume acc: "accepted f" and m: "model c (path_join (non_person_dir c) f) = Inr rs"
      and le: "\<forall>b \<in> set (concat rs). cls b = 0 \<longrightarrow> conf b \<le> confidence_threshold c"
    from le have "\<forall>b \<in> set (concat rs). \<not> qualifies c b"
      unfolding qualifies_def by (metis not_less)
    then have "find (qualifies c) (concat rs) = None" by (rule find_None_all)
    with acc m show "scan_entry c f st = st\<lparr>calls := calls st @ [path_join (non_person_dir c) f]\<rparr>"
      by (simp add: scan_entry_eq)
  qed
next
  show "(\<forall>b \<in> set bs. conf b = confidence_threshold c) \<longrightarrow> boxes_loop c f bs st = Done st"
  proof
    assume "\<forall>b \<in> set bs. conf b = confidence_threshold c"
    then have "\<forall>b \<in> set bs. \<not> qualifies c b" by (simp add: qualifies_def)
    then have "find (qualifies c) bs = None" by (rule find_None_all)
    then show "boxes_loop c f bs st = Done st" by (simp add: boxes_loop_find)
  qed
next
  show "fst (process_mislabeled_images (ex_env (d_conf 0.40)) ''yolo11x.pt'' ''data'' 0.40 w_one) =
     Inr (0, ''data/logs/moved_files_20250102_030405.txt'')"
    by code_simp
next
  show "fst (process_mislabeled_images (ex_env (d_conf 0.41)) ''yolo11x.pt'' ''data'' 0.40 w_one) =
     Inr (1, ''data/logs/moved_files_20250102_030405.txt'')"
    by code_simp
qed

theorem threshold_is_strict_witness:
  "accepted ''a.jpg'' \<and>
   model (run_ctx (ex_env (d_conf 0.4)) (d_conf 0.4) ''data'' 0.4) ''data/0/a.jpg'' = Inr [[person_box 0.4]] \<and>
   scan_entry (run_ctx (ex_env (d_conf 0.4)) (d_conf 0.4) ''data'' 0.4) ''a.jpg''
      (start_state [(''a.jpg'', ''A'')] [] w_one) =
     (start_state [(''a.jpg'', ''A'')] [] w_one)\<lparr>calls := [''data/0/a.jpg'']\<rparr> \<and>
   boxes_loop (run_ctx (ex_env (d_conf 0.4)) (d_conf 0.4) ''data'' 0.4) ''a.jpg'' [person_box 0.4]
      (start_state [(''a.jpg'', ''A'')] [] w_one) =
     Done (start_state [(''a.jpg'', ''A'')] [] w_one)"
proof -
  let ?c = "run_ctx (ex_env (d_conf 0.4)) (d_conf 0.4) ''data'' 0.4"
  let ?s = "start_state [(''a.jpg'', ''A'')] [] w_one"
  have acc: "accepted ''a.jpg''" by code_simp
  have pth: "path_join (non_person_dir ?c) ''a.jpg'' = ''data/0/a.jpg''"
    by (simp add: run_ctx_def path_join_def)
  have m: "model ?c ''data/0/a.jpg'' = Inr [[person_box 0.4]]"
    by (simp add: run_ctx_def d_conf_def)
  have le: "\<forall>b \<in> set (concat [[person_box 0.4]]). cls b = 0 \<longrightarrow> conf b \<le> confidence_threshold ?c"
    by (simp add: person_box_def run_ctx_def)
  have eq: "\<forall>b \<in> set [person_box 0.4]. conf b = confidence_threshold ?c"
    by (simp add: person_box_def run_ctx_def)
  note T = threshold_is_strict [of ?c "''a.jpg''" ?s "[[person_box 0.4]]" "[person_box 0.4]"]
  from T [THEN conjunct2, THEN conjunct1] acc m le
  have 1: "scan_entry ?c ''a.jpg'' ?s = ?s\<lparr>calls := calls ?s @ [''data/0/a.jpg'']\<rparr>"
    unfolding pth by blast
  from T [THEN conjunct2, THEN conjunct2, THEN conjunct1] eq
  have 2: "boxes_loop ?c ''a.jpg'' [person_box 0.4] ?s = Done ?s" by blast
  have cs: "calls ?s = []" by (simp add: start_state_def w_one_def)
  from acc m 1 2 show ?thesis unfolding cs by simp
qed

section \<open>Errors of one file\<close>

lemma scan_entry_raises:
  assumes "accepted f" "model c (path_join (non_person_dir c) f) = Inl e"
  shows "scan_entry c f st =
           st\<lparr>calls := calls st @ [path_join (non_person_dir c) f],
              log_file := log_file st @ [Error f e]\<rparr>"
  using assms by (simp add: scan_entry_eq)

lemma scan_entry_moves:
  assumes "accepted f" "model c (path_join (non_person_dir c) f) = Inr rs"
    and "find (qualifies c) (concat rs) = Some b"
    and "map_of (nonperson st) f = Some d" "refuse c f = None"
    and "\<not> list_ex (qualifies c) (concat (rest_after c rs))"
  shows "scan_entry c f st =
           st\<lparr>calls := calls st @ [path_join (non_person_dir c) f],
              nonperson := AList.delete f (nonperson st),
              person := AList.update f d (person st),
              log_file := log_file st @ [Moved f (conf b)],
              moved_count := moved_count st + 1\<rparr>"
  using assms by (simp add: scan_entry_eq shutil_move_def logged_def)

lemma one_person_box:
  assumes "confidence_threshold c < x"
  shows "find (qualifies c) (concat [[\<lparr>cls = 0, conf = x\<rparr>]]) = Some \<lparr>cls = 0, conf = x\<rparr>"
    and "\<not> list_ex (qualifies c) (concat (rest_after c [[\<lparr>cls = 0, conf = x\<rparr>]]))"
  using assms by (simp_all add: qualifies_def rest_after_def)

lemma scan_error_then_match:
  assumes "accepted a" "accepted b" "a \<noteq> b"
    and "model c (path_join (non_person_dir c) a) = Inl e"
    and "model c (path_join (non_person_dir c) b) = Inr [[\<lparr>cls = 0, conf = x\<rparr>]]"
    and "confidence_threshold c < x" "refuse c b = None"
    and "nonperson st = [(a, da), (b, db)] \<or> nonperson st = [(b, db), (a, da)]"
  shows "moved_count (scan_loop c (map fst (nonperson st)) st) = moved_count st + 1 \<and>
         (\<exists>pre post. log_file (scan_loop c (map fst (nonperson st)) st) = log_file st @ pre @ post \<and>
            set (pre @ post) = {Error a e, Moved b x})"
proof -
  note ob = one_person_box [OF assms(6)]
  from assms(8) show ?thesis
  proof
    assume np: "nonperson st = [(a, da), (b, db)]"
    let ?s1 = "st\<lparr>calls := calls st @ [path_join (non_person_dir c) a],
                   log_file := log_file st @ [Error a e]\<rparr>"
    have 1: "scan_entry c a st = ?s1" by (rule scan_entry_raises) fact+
    have mo: "map_of (nonperson ?s1) b = Some db" using np assms(3) by simp
    have 2: "scan_entry c b ?s1 =
        ?s1\<lparr>calls := calls ?s1 @ [path_join (non_person_dir c) b],
              nonperson := AList.delete b (nonperson ?s1),
              person := AList.update b db (person ?s1),
              log_file := log_file ?s1 @ [Moved b (conf \<lparr>cls = 0, conf = x\<rparr>)],
              moved_count := moved_count ?s1 + 1\<rparr>"
      by (rule scan_entry_moves [OF assms(2) assms(5) ob(1) mo assms(7) ob(2)])
    have fin: "scan_loop c (map fst (nonperson st)) st = scan_entry c b (scan_entry c a st)"
      unfolding np by simp
    have "moved_count (scan_loop c (map fst (nonperson st)) st) = moved_count st + 1"
      unfolding fin 1 2 by simp
    moreover have "log_file (scan_loop c (map fst (nonperson st)) st) =
        log_file st @ [Error a e] @ [Moved b x]"
      unfolding fin 1 2 by simp
    moreover have "set ([Error a e] @ [Moved b x]) = {Error a e, Moved b x}" by simp
    ultimately show ?thesis by blast
  next
    assume np: "nonperson st = [(b, db), (a, da)]"
    have mo: "map_of (nonperson st) b = Some db" using np by simp
    let ?s1 = "st\<lparr>calls := calls st @ [path_join (non_person_dir c) b],
              nonperson := AList.delete b (nonperson st),
              person := AList.update b db (person st),
              log_file := log_file st @ [Moved b (conf \<lparr>cls = 0, conf = x\<rparr>)],
              moved_count := moved_count st + 1\<rparr>"
    have 1: "scan_entry c b st = ?s1"
      by (rule scan_entry_moves [OF assms(2) assms(5) ob(1) mo assms(7) ob(2)])
    have 2: "scan_entry c a ?s1 =
        ?s1\<lparr>calls := calls ?s1 @ [path_join (non_person_dir c) a],
              log_file := log_file ?s1 @ [Error a e]\<rparr>"
      by (rule scan_entry_raises) fact+
    have fin: "scan_loop c (map fst (nonperson st)) st = scan_entry c a (scan_entry c b st)"
      unfolding np by simp
    have "moved_count (scan_loop c (map fst (nonperson st)) st) = moved_count st + 1"
      unfolding fin 1 2 by simp
    moreover have "log_file (scan_loop c (map fst (nonperson st)) st) =
        log_file st @ [Moved b x] @ [Error a e]"
      unfolding fin 1 2 by simp
    moreover have "set ([Moved b x] @ [Error a e]) = {Error a e, Moved b x}" by auto
    ultimately show ?thesis by blast
  qed
qed

text \<open>
  C3. A detection failure is recovered where it happens. When the detector raises for an
  accepted file, the iteration writes the line \<^verbatim>\<open>Error processing <file>: <message>\<close>
  to the log and changes nothing else but the record of the detector call (no Moved line,
  no move, counter unchanged), and the loop goes on with the rest of the listing. For a
  non-person directory holding a file A on which the detector raises and a file B with a
  person box of confidence 0.5, in either listing order, the run with threshold 0.4 returns
  \<open>moved_count = 1\<close> and its log holds the header, the error line of A and the Moved line
  of B.
\<close>

theorem detection_error_is_recovered:
  "(accepted f \<and> model c (path_join (non_person_dir c) f) = Inl e \<longrightarrow>
      scan_entry c f st =
        st\<lparr>calls := calls st @ [path_join (non_person_dir c) f],
           log_file := log_file st @ [Error f e]\<rparr> \<and>
      scan_loop c (f # fs) st =
        scan_loop c fs (st\<lparr>calls := calls st @ [path_join (non_person_dir c) f],
                         log_file := log_file st @ [Error f e]\<rparr>)) \<and>
   (accepted a \<and> accepted b \<and> a \<noteq> b \<and> YOLO ev mp = Inr m \<and>
    m (path_join (path_join rt ''0'') a) = Inl ea \<and>
    m (path_join (path_join rt ''0'') b) = Inr [[\<lparr>cls = 0, conf = 0.5\<rparr>]] \<and>
    os_refuse ev b = None \<and>
    (dir0 w = Some [(a, da), (b, db)] \<or> dir0 w = Some [(b, db), (a, da)]) \<and>
    dir1 w = Some pp \<longrightarrow>
      fst (process_mislabeled_images ev mp rt 0.4 w) =
        Inr (1, path_join (path_join rt ''logs'') (log_name ev)) \<and>
      set (written_log ev (snd (process_mislabeled_images ev mp rt 0.4 w))) =
        {Header, Error a ea, Moved b 0.5})"
proof (intro conjI impI)
  assume h: "accepted f \<and> model c (path_join (non_person_dir c) f) = Inl e"
  then show 1: "scan_entry c f st =
        st\<lparr>calls := calls st @ [path_join (non_person_dir c) f],
           log_file := log_file st @ [Error f e]\<rparr>"
    by (simp add: scan_entry_raises)
  show "scan_loop c (f # fs) st =
        scan_loop c fs (st\<lparr>calls := calls st @ [path_join (non_person_dir c) f],
                         log_file := log_file st @ [Error f e]\<rparr>)"
    unfolding scan_loop.simps 1 ..
next
  assume h: "accepted a \<and> accepted b \<and> a \<noteq> b \<and> YOLO ev mp = Inr m \<and>
    m (path_join (path_join rt ''0'') a) = Inl ea \<and>
    m (path_join (path_join rt ''0'') b) = Inr [[\<lparr>cls = 0, conf = 0.5\<rparr>]] \<and>
    os_refuse ev b = None \<and>
    (dir0 w = Some [(a, da), (b, db)] \<or> dir0 w = Some [(b, db), (a, da)]) \<and>
    dir1 w = Some pp"
  let ?c = "run_ctx ev m rt 0.4"
  from h obtain np where np: "dir0 w = Some np" "np = [(a, da), (b, db)] \<or> np = [(b, db), (a, da)]"
    by blast
  let ?s = "start_state np pp w"
  from h have a3: "YOLO ev mp = Inr m" "dir1 w = Some pp" by simp_all
  have sm: "moved_count (scan_loop ?c (map fst (nonperson ?s)) ?s) = moved_count ?s + 1 \<and>
         (\<exists>pre post. log_file (scan_loop ?c (map fst (nonperson ?s)) ?s) = log_file ?s @ pre @ post \<and>
            set (pre @ post) = {Error a ea, Moved b 0.5})"
  proof (rule scan_error_then_match)
    from h show "accepted a" "accepted b" "a \<noteq> b" by simp_all
    from h show "model ?c (path_join (non_person_dir ?c) a) = Inl ea"
      by (simp add: run_ctx_def)
    from h show "model ?c (path_join (non_person_dir ?c) b) = Inr [[\<lparr>cls = 0, conf = 0.5\<rparr>]]"
      by (simp add: run_ctx_def)
    show "confidence_threshold ?c < 0.5" by (simp add: run_ctx_def)
    from h show "refuse ?c b = None" by (simp add: run_ctx_def)
    from np(2) show "nonperson ?s = [(a, da), (b, db)] \<or> nonperson ?s = [(b, db), (a, da)]"
      by (simp add: start_state_def)
  qed
  have ns: "nonperson ?s = np" "moved_count ?s = 0" "log_file ?s = [Header]"
    by (simp_all add: start_state_def)
  from sm have cnt: "moved_count (scan_loop ?c (map fst np) ?s) = 1"
    unfolding ns by simp
  from sm obtain pre post
    where pp: "log_file (scan_loop ?c (map fst np) ?s) = [Header] @ pre @ post"
      "set (pre @ post) = {Error a ea, Moved b 0.5}"
    unfolding ns by blast
  have "set (log_file (scan_loop ?c (map fst np) ?s)) = insert Header (set (pre @ post))"
    unfolding pp(1) by simp
  then have lg: "set (log_file (scan_loop ?c (map fst np) ?s)) = {Header, Error a ea, Moved b 0.5}"
    unfolding pp(2) .
  show "fst (process_mislabeled_images ev mp rt 0.4 w) =
        Inr (1, path_join (path_join rt ''logs'') (log_name ev))"
    unfolding process_ok [OF a3(1) np(1) a3(2)] fst_conv cnt by (rule refl)
  show "set (written_log ev (snd (process_mislabeled_images ev mp rt 0.4 w))) =
        {Header, Error a ea, Moved b 0.5}"
    unfolding written_log_process [OF a3(1) np(1) a3(2)] by (rule lg)
qed

theorem detection_error_is_recovered_witness:
  "fst (process_mislabeled_images (ex_env d_err) ''yolo11x.pt'' ''data'' 0.4 w_err) =
     Inr (1, ''data/logs/moved_files_20250102_030405.txt'') \<and>
   set (written_log (ex_env d_err)
          (snd (process_mislabeled_images (ex_env d_err) ''yolo11x.pt'' ''data'' 0.4 w_err))) =
     {Header, Error ''a.jpg'' ''cannot identify image file'', Moved ''b.png'' 0.5} \<and>
   scan_entry (run_ctx (ex_env d_err) d_err ''data'' 0.4) ''a.jpg''
       (start_state [(''a.jpg'', ''A''), (''b.png'', ''B'')] [] w_err) =
     (start_state [(''a.jpg'', ''A''), (''b.png'', ''B'')] [] w_err)
       \<lparr>calls := [''data/0/a.jpg''],
        log_file := [Header, Error ''a.jpg'' ''cannot identify image file'']\<rparr>"
proof -
  let ?c = "run_ctx (ex_env d_err) d_err ''data'' 0.4"
  let ?s = "start_state [(''a.jpg'', ''A''), (''b.png'', ''B'')] [] w_err"
  have acc: "accepted ''a.jpg''" "accepted ''b.png''" by code_simp+
  have pa: "path_join (path_join ''data'' ''0'') ''a.jpg'' = ''data/0/a.jpg''"
    by (simp add: path_join_def)
  have pb: "path_join (path_join ''data'' ''0'') ''b.png'' = ''data/0/b.png''"
    by (simp add: path_join_def)
  have pl: "path_join (path_join ''data'' ''logs'') (log_name (ex_env d_err)) =
             ''data/logs/moved_files_20250102_030405.txt''"
    by code_simp
  have pc: "path_join (non_person_dir ?c) ''a.jpg'' = ''data/0/a.jpg''"
    by (simp add: run_ctx_def path_join_def)
  have h1: "accepted ''a.jpg'' \<and> model ?c (path_join (non_person_dir ?c) ''a.jpg'') =
              Inl ''cannot identify image file''"
    unfolding pc using acc by (simp add: run_ctx_def d_err_def)
  have h2: "accepted ''a.jpg'' \<and> accepted ''b.png'' \<and> ''a.jpg'' \<noteq> ''b.png'' \<and>
    YOLO (ex_env d_err) ''yolo11x.pt'' = Inr d_err \<and>
    d_err (path_join (path_join ''data'' ''0'') ''a.jpg'') = Inl ''cannot identify image file'' \<and>
    d_err (path_join (path_join ''data'' ''0'') ''b.png'') = Inr [[\<lparr>cls = 0, conf = 0.5\<rparr>]] \<and>
    os_refuse (ex_env d_err) ''b.png'' = None \<and>
    (dir0 w_err = Some [(''a.jpg'', ''A''), (''b.png'', ''B'')] \<or>
     dir0 w_err = Some [(''b.png'', ''B''), (''a.jpg'', ''A'')]) \<and>
    dir1 w_err = Some []"
    unfolding pa pb using acc by (simp add: ex_env_def d_err_def w_err_def person_box_def)
  note T = detection_error_is_recovered
    [of "''a.jpg''" ?c "''cannot identify image file''" ?s "[]" "''a.jpg''" "''b.png''"
        "ex_env d_err" "''yolo11x.pt''" d_err "''data''" "''cannot identify image file''"
        w_err "''A''" "''B''" "[]"]
  from T [THEN conjunct1] h1
  have 1: "scan_entry ?c ''a.jpg'' ?s =
        ?s\<lparr>calls := calls ?s @ [path_join (non_person_dir ?c) ''a.jpg''],
           log_file := log_file ?s @ [Error ''a.jpg'' ''cannot identify image file'']\<rparr>"
    by (rule mp [THEN conjunct1])
  from T [THEN conjunct2] h2
  have 2: "fst (process_mislabeled_images (ex_env d_err) ''yolo11x.pt'' ''data'' 0.4 w_err) =
        Inr (1, path_join (path_join ''data'' ''logs'') (log_name (ex_env d_err))) \<and>
      set (written_log (ex_env d_err)
             (snd (process_mislabeled_images (ex_env d_err) ''yolo11x.pt'' ''data'' 0.4 w_err))) =
        {Header, Error ''a.jpg'' ''cannot identify image file'', Moved ''b.png'' 0.5}"
    by (rule mp)
  have cs: "calls ?s = []" "log_file ?s = [Header]" by (simp_all add: start_state_def w_err_def)
  from 1 have e1: "scan_entry ?c ''a.jpg'' ?s =
        ?s\<lparr>calls := [''data/0/a.jpg''],
           log_file := [Header, Error ''a.jpg'' ''cannot identify image file'']\<rparr>"
    unfolding pc cs by simp
  from 2 [unfolded pl] e1 show ?thesis by (intro conjI) (erule conjunct1, erule conjunct2, assumption)
qed

section \<open>A move that fails\<close>

lemma shutil_move_raises_iff:
  "shutil_move c f st = Raised e st' \<longleftrightarrow>
     (map_of (nonperson st) f = None \<and> e = enoent c f \<and> st' = st) \<or>
     (\<exists>d. map_of (nonperson st) f = Some d \<and>
        ((\<exists>left. refuse c f = Some (CopyRaises e left) \<and>
            st' = (case left of
                     None \<Rightarrow> st
                   | Some bytes \<Rightarrow> st\<lparr>person := AList.update f bytes (person st)\<rparr>)) \<or>
         (refuse c f = Some (UnlinkRaises e) \<and>
            st' = st\<lparr>person := AList.update f d (person st)\<rparr>)))"
  by (auto simp: shutil_move_def split: option.splits fallback.splits)

lemma shutil_move_raises_after:
  assumes "shutil_move c f st = Raised e st'"
  shows "\<not> movable c st f" "e = failure_message c f st" "st' = after_failure c f st"
  using assms by (simp_all add: shutil_move_movable split: if_splits)

lemma scan_entry_move_fails:
  assumes "detected c f" "shutil_move c f st = Raised e st'"
  shows "scan_entry c f st =
           st'\<lparr>calls := calls st @ [path_join (non_person_dir c) f],
               log_file := log_file st @ [Error f e]\<rparr>"
proof -
  from assms(1) obtain rs b where acc: "accepted f"
    and m: "model c (path_join (non_person_dir c) f) = Inr rs"
    and fb: "find (qualifies c) (concat rs) = Some b"
    unfolding detected_find by blast
  note r = shutil_move_raises_after [OF assms(2)]
  from r(1)
  have "shutil_move c f (st\<lparr>calls := calls st @ [path_join (non_person_dir c) f]\<rparr>) =
          Raised (failure_message c f st)
            ((after_failure c f st)\<lparr>calls := calls st @ [path_join (non_person_dir c) f]\<rparr>)"
    by (simp add: shutil_move_movable)
  with acc m fb show ?thesis unfolding r(2) r(3) by (simp add: scan_entry_eq Let_def)
qed

lemma scan_entry_replaces:
  assumes "detected c f" "map_of (nonperson st) f = Some d" "completes c f"
  shows "map_of (person (scan_entry c f st)) f = Some d"
    and "map_of (nonperson (scan_entry c f st)) f = None"
    and "moved_count (scan_entry c f st) = moved_count st + 1"
    and "\<exists>x rest. log_file (scan_entry c f st) = log_file st @ Moved f x # rest"
proof -
  from assms have mv: "movable c st f" by (simp add: movable_def)
  from assms show "map_of (person (scan_entry c f st)) f = Some d"
    by (simp add: scan_entry_person attempt_writes_completes AList.update_conv)
  from assms mv show "map_of (nonperson (scan_entry c f st)) f = None"
    by (simp add: scan_entry_nonperson AList.delete_conv)
  from assms mv show "moved_count (scan_entry c f st) = moved_count st + 1"
    by (simp add: scan_entry_moved_count)
  from assms(1) obtain rs b where acc: "accepted f"
    and m: "model c (path_join (non_person_dir c) f) = Inr rs"
    and fb: "find (qualifies c) (concat rs) = Some b"
    unfolding detected_find by blast
  from acc m fb mv
  have "log_file (scan_entry c f st) = log_file st @ Moved f (conf b) # [] \<or>
        log_file (scan_entry c f st) = log_file st @ Moved f (conf b) # [Error f (enoent c f)]"
    by (simp add: scan_entry_eq shutil_move_movable logged_def Let_def)
  then show "\<exists>x rest. log_file (scan_entry c f st) = log_file st @ Moved f x # rest"
    by blast
qed

text \<open>
  C2, as the code has it. A file of the same name in the person directory does not make
  the move fail: \<^verbatim>\<open>shutil.move\<close> onto an existing regular file replaces it, and the
  code has no check of the target. The run below has \<^verbatim>\<open>a.jpg\<close> in both directories;
  it ends with the content of the non-person file under that name in the person
  directory, one Moved line, no Error line and \<open>moved_count = 1\<close>.
\<close>

theorem existing_target_is_replaced:
  "process_mislabeled_images (ex_env d_all) ''yolo11x.pt'' ''data'' 0.4 w_clash =
     (Inr (1, ''data/logs/moved_files_20250102_030405.txt''), w_clash_after)"
  by code_simp

text \<open>
  C2, amended. \<^verbatim>\<open>shutil.move\<close> raises exactly when the source is gone, or the
  operating system refuses the rename and then the fallback copy or the removal of the
  source raises (a permission error, for instance); the entry then stays in the non-person
  directory, and the person directory holds under its name what the copy has written, if
  anything. When the move of a file with a qualifying detection raises, the run does not
  stop: the iteration writes the Error line with the message, writes no Moved line, leaves
  the counter and the non-person directory as they were, and the loop goes on with the
  next entry. When the move completes, the content of the file is stored under its name in
  the person directory, whatever was there, the entry leaves the non-person directory, the
  Moved line is written and the file is counted.
\<close>

theorem move_failure_is_recovered:
  "(shutil_move c f st = Raised e st' \<longleftrightarrow>
      (map_of (nonperson st) f = None \<and> e = enoent c f \<and> st' = st) \<or>
      (\<exists>d. map_of (nonperson st) f = Some d \<and>
         ((\<exists>left. refuse c f = Some (CopyRaises e left) \<and>
             st' = (case left of
                      None \<Rightarrow> st
                    | Some bytes \<Rightarrow> st\<lparr>person := AList.update f bytes (person st)\<rparr>)) \<or>
          (refuse c f = Some (UnlinkRaises e) \<and>
             st' = st\<lparr>person := AList.update f d (person st)\<rparr>)))) \<and>
   (detected c f \<and> shutil_move c f st = Raised e st' \<longrightarrow>
      scan_entry c f st =
        st'\<lparr>calls := calls st @ [path_join (non_person_dir c) f],
            log_file := log_file st @ [Error f e]\<rparr> \<and>
      nonperson (scan_entry c f st) = nonperson st \<and>
      moved_count (scan_entry c f st) = moved_count st \<and>
      scan_loop c (f # fs) st =
        scan_loop c fs (st'\<lparr>calls := calls st @ [path_join (non_person_dir c) f],
                          log_file := log_file st @ [Error f e]\<rparr>)) \<and>
   (detected c f \<and> map_of (nonperson st) f = Some d \<and> completes c f \<longrightarrow>
      map_of (person (scan_entry c f st)) f = Some d \<and>
      map_of (nonperson (scan_entry c f st)) f = None \<and>
      moved_count (scan_entry c f st) = moved_count st + 1 \<and>
      (\<exists>x rest. log_file (scan_entry c f st) = log_file st @ Moved f x # rest))"
proof (intro conjI impI)
  show "shutil_move c f st = Raised e st' \<longleftrightarrow>
      (map_of (nonperson st) f = None \<and> e = enoent c f \<and> st' = st) \<or>
      (\<exists>d. map_of (nonperson st) f = Some d \<and>
         ((\<exists>left. refuse c f = Some (CopyRaises e left) \<and>
             st' = (case left of
                      None \<Rightarrow> st
                    | Some bytes \<Rightarrow> st\<lparr>person := AList.update f bytes (person st)\<rparr>)) \<or>
          (refuse c f = Some (UnlinkRaises e) \<and>
             st' = st\<lparr>person := AList.update f d (person st)\<rparr>)))"
    by (rule shutil_move_raises_iff)
next
  assume h: "detected c f \<and> shutil_move c f st = Raised e st'"
  then have d: "detected c f" and r: "shutil_move c f st = Raised e st'" by simp_all
  note a = shutil_move_raises_after [OF r]
  show 1: "scan_entry c f st =
        st'\<lparr>calls := calls st @ [path_join (non_person_dir c) f],
            log_file := log_file st @ [Error f e]\<rparr>"
    by (rule scan_entry_move_fails [OF d r])
  show "nonperson (scan_entry c f st) = nonperson st"
    unfolding 1 a(3) by simp
  show "moved_count (scan_entry c f st) = moved_count st"
    unfolding 1 a(3) by simp
  show "scan_loop c (f # fs) st =
        scan_loop c fs (st'\<lparr>calls := calls st @ [path_join (non_person_dir c) f],
                          log_file := log_file st @ [Error f e]\<rparr>)"
    unfolding scan_loop.simps 1 ..
next
  assume h: "detected c f \<and> map_of (nonperson st) f = Some d \<and> completes c f"
  then have a: "detected c f" "map_of (nonperson st) f = Some d" "completes c f" by simp_all
  show "map_of (person (scan_entry c f st)) f = Some d"
    by (rule scan_entry_replaces(1) [OF a])
  show "map_of (nonperson (scan_entry c f st)) f = None"
    by (rule scan_entry_replaces(2) [OF a])
  show "moved_count (scan_entry c f st) = moved_count st + 1"
    by (rule scan_entry_replaces(3) [OF a])
  show "\<exists>x rest. log_file (scan_entry c f st) = log_file st @ Moved f x # rest"
    by (rule scan_entry_replaces(4) [OF a])
qed

theorem move_failure_is_recovered_witness:
  "detected (run_ctx ex_env_denied d_all ''data'' 0.4) ''a.jpg'' \<and>
   shutil_move (run_ctx ex_env_denied d_all ''data'' 0.4) ''a.jpg''
      (start_state [(''a.jpg'', ''A''), (''b.png'', ''B'')] [] w_two) =
     Raised ''[Errno 13] Permission denied''
       ((start_state [(''a.jpg'', ''A''), (''b.png'', ''B'')] [] w_two)
          \<lparr>person := [(''a.jpg'', ''A'')]\<rparr>) \<and>
   scan_entry (run_ctx ex_env_denied d_all ''data'' 0.4) ''a.jpg''
      (start_state [(''a.jpg'', ''A''), (''b.png'', ''B'')] [] w_two) =
     (start_state [(''a.jpg'', ''A''), (''b.png'', ''B'')] [] w_two)
       \<lparr>person := [(''a.jpg'', ''A'')],
        calls := [''data/0/a.jpg''],
        log_file := [Header, Error ''a.jpg'' ''[Errno 13] Permission denied'']\<rparr> \<and>
   detected (run_ctx (ex_env d_all) d_all ''data'' 0.4) ''a.jpg'' \<and>
   map_of (person (scan_entry (run_ctx (ex_env d_all) d_all ''data'' 0.4) ''a.jpg''
             (start_state [(''a.jpg'', ''new bytes'')] [(''a.jpg'', ''old bytes'')] w_clash)))
     ''a.jpg'' = Some ''new bytes'' \<and>
   process_mislabeled_images ex_env_denied ''yolo11x.pt'' ''data'' 0.4 w_two =
     (Inr (1, ''data/logs/moved_files_20250102_030405.txt''), w_two_after)"
proof -
  let ?c = "run_ctx ex_env_denied d_all ''data'' 0.4"
  let ?s = "start_state [(''a.jpg'', ''A''), (''b.png'', ''B'')] [] w_two"
  let ?c2 = "run_ctx (ex_env d_all) d_all ''data'' 0.4"
  let ?s2 = "start_state [(''a.jpg'', ''new bytes'')] [(''a.jpg'', ''old bytes'')] w_clash"
  have det: "detected ?c ''a.jpg''" by code_simp
  have det2: "detected ?c2 ''a.jpg''" by code_simp
  have mv: "shutil_move ?c ''a.jpg'' ?s =
              Raised ''[Errno 13] Permission denied'' (?s\<lparr>person := [(''a.jpg'', ''A'')]\<rparr>)"
    by (simp add: shutil_move_def start_state_def run_ctx_def ex_env_denied_def)
  have src: "map_of (nonperson ?s2) ''a.jpg'' = Some ''new bytes'' \<and> completes ?c2 ''a.jpg''"
    by (simp add: start_state_def run_ctx_def ex_env_def completes_def)
  have pc: "path_join (non_person_dir ?c) ''a.jpg'' = ''data/0/a.jpg''"
    by (simp add: run_ctx_def path_join_def)
  have cs: "calls ?s = []" "log_file ?s = [Header]" by (simp_all add: start_state_def w_two_def)
  have run: "process_mislabeled_images ex_env_denied ''yolo11x.pt'' ''data'' 0.4 w_two =
     (Inr (1, ''data/logs/moved_files_20250102_030405.txt''), w_two_after)"
    by code_simp
  from move_failure_is_recovered
         [of ?c "''a.jpg''" ?s "''[Errno 13] Permission denied''"
             "?s\<lparr>person := [(''a.jpg'', ''A'')]\<rparr>" "[]", THEN conjunct2, THEN conjunct1]
       det mv
  have "scan_entry ?c ''a.jpg'' ?s =
        ?s\<lparr>person := [(''a.jpg'', ''A'')],
           calls := calls ?s @ [path_join (non_person_dir ?c) ''a.jpg''],
           log_file := log_file ?s @ [Error ''a.jpg'' ''[Errno 13] Permission denied'']\<rparr>"
    by (rule mp [OF _ conjI, THEN conjunct1])
  then have 1: "scan_entry ?c ''a.jpg'' ?s =
        ?s\<lparr>person := [(''a.jpg'', ''A'')],
           calls := [''data/0/a.jpg''],
           log_file := [Header, Error ''a.jpg'' ''[Errno 13] Permission denied'']\<rparr>"
    unfolding pc cs by simp
  from move_failure_is_recovered
         [of ?c2 "''a.jpg''" ?s2 "[]" ?s2 "[]" "''new bytes''", THEN conjunct2, THEN conjunct2]
       det2 src
  have 2: "map_of (person (scan_entry ?c2 ''a.jpg'' ?s2)) ''a.jpg'' = Some ''new bytes''"
    by (rule mp [OF _ conjI, THEN conjunct1])
  from det mv 1 det2 2 run show ?thesis by (intro conjI)
qed

section \<open>One file, several results\<close>

text \<open>
  C1, at an input on which the code departs from it. The \<^verbatim>\<open>break\<close> of line 462
  leaves the loop over the boxes of one result; the loop over the results of the file goes
  on. When the detector returns two results for \<^verbatim>\<open>a.jpg\<close>, each with a person box
  above the threshold, the first box moves the file, writes its Moved line and counts it;
  the box of the second result is evaluated too, the second \<^verbatim>\<open>shutil.move\<close> raises
  because the file is gone, and an Error line is written for the file that was moved.
\<close>

theorem second_result_is_still_evaluated:
  "process_mislabeled_images (ex_env d_two_results) ''yolo11x.pt'' ''data'' 0.4 w_one =
     (Inr (1, ''data/logs/moved_files_20250102_030405.txt''), w_one_after_two_results)"
  by code_simp

section \<open>The threshold and the set of matches\<close>

lemma qualifies_mono:
  "t1 \<le> t2 \<Longrightarrow> qualifies (c\<lparr>confidence_threshold := t2\<rparr>) b \<Longrightarrow>
   qualifies (c\<lparr>confidence_threshold := t1\<rparr>) b"
  by (simp add: qualifies_def)

lemma detected_mono:
  assumes "t1 \<le> t2" "detected (c\<lparr>confidence_threshold := t2\<rparr>) f"
  shows "detected (c\<lparr>confidence_threshold := t1\<rparr>) f"
  using assms qualifies_mono [OF assms(1), of c]
  by (auto simp: detected_def list_ex_iff split: sum.splits)

lemma movable_threshold [simp]:
  "movable (c\<lparr>confidence_threshold := t\<rparr>) st f = movable c st f"
  by (simp add: movable_def completes_def)

lemma moved_files_mono:
  assumes "t1 \<le> t2"
  shows "moved_files (scan_loop (c\<lparr>confidence_threshold := t2\<rparr>) fs st) \<subseteq>
         moved_files (scan_loop (c\<lparr>confidence_threshold := t1\<rparr>) fs st)"
  unfolding moved_files_scan_loop
  using detected_mono [OF assms, of c] by auto

lemma run_ctx_threshold:
  "run_ctx ev m rt t = (run_ctx ev m rt 0)\<lparr>confidence_threshold := t\<rparr>"
  by (simp add: run_ctx_def)

lemma run_matches_files_mono:
  assumes "t1 \<le> t2"
  shows "fst ` set (run_matches ev mp rt t2 w) \<subseteq> fst ` set (run_matches ev mp rt t1 w)"
proof (cases "\<exists>m np pp. YOLO ev mp = Inr m \<and> dir0 w = Some np \<and> dir1 w = Some pp")
  case True
  then obtain m np pp where a3: "YOLO ev mp = Inr m" "dir0 w = Some np" "dir1 w = Some pp"
    by blast
  show ?thesis
    unfolding run_matches_def written_log_process [OF a3]
    using moved_files_mono [OF assms, of "run_ctx ev m rt 0" "map fst np" "start_state np pp w"]
    unfolding moved_files_def run_ctx_threshold [of ev m rt t1] run_ctx_threshold [of ev m rt t2] .
next
  case False
  have "\<And>t. snd (process_mislabeled_images ev mp rt t w) = w"
    using False
    by (auto simp: process_mislabeled_images_def Let_def
             split: sum.splits load_failure.splits option.splits)
  then show ?thesis by (simp add: run_matches_def)
qed

text \<open>
  C4, as the code has it. The scan acts on the first qualifying box of a file, so the
  Match of a file (its name with the confidence written to the log) can change with the
  threshold. For one file with person boxes of confidence 0.5 and 0.9, in this order, the
  run with threshold 0.4 yields the Match (a.jpg, 0.5) and the run with threshold 0.6 the
  Match (a.jpg, 0.9), which is not among the Matches of the first.
\<close>

theorem matches_are_not_monotone:
  "(0.4 :: real) < 0.6 \<and>
   run_matches (ex_env d_two_boxes) ''yolo11x.pt'' ''data'' 0.4 w_one = [(''a.jpg'', 0.5)] \<and>
   run_matches (ex_env d_two_boxes) ''yolo11x.pt'' ''data'' 0.6 w_one = [(''a.jpg'', 0.9)] \<and>
   \<not> set (run_matches (ex_env d_two_boxes) ''yolo11x.pt'' ''data'' 0.6 w_one) \<subseteq>
       set (run_matches (ex_env d_two_boxes) ''yolo11x.pt'' ''data'' 0.4 w_one)"
proof -
  have 1: "run_matches (ex_env d_two_boxes) ''yolo11x.pt'' ''data'' 0.4 w_one = [(''a.jpg'', 0.5)]"
    by code_simp
  have 2: "run_matches (ex_env d_two_boxes) ''yolo11x.pt'' ''data'' 0.6 w_one = [(''a.jpg'', 0.9)]"
    by code_simp
  show ?thesis unfolding 1 2 by simp
qed

text \<open>
  C4, amended. For thresholds \<open>t1 < t2\<close>, a fixed listing and a fixed detector: every
  box that qualifies under \<open>t2\<close> qualifies under \<open>t1\<close>, and the files matched and moved
  with \<open>t2\<close> are among the files matched and moved with \<open>t1\<close>, for the loop from any
  state and for the whole run.
\<close>

theorem matched_files_are_monotone:
  assumes "t1 < t2"
  shows "(qualifies (c\<lparr>confidence_threshold := t2\<rparr>) b \<longrightarrow>
            qualifies (c\<lparr>confidence_threshold := t1\<rparr>) b) \<and>
         moved_files (scan_loop (c\<lparr>confidence_threshold := t2\<rparr>) fs st) \<subseteq>
           moved_files (scan_loop (c\<lparr>confidence_threshold := t1\<rparr>) fs st) \<and>
         fst ` set (run_matches ev mp rt t2 w) \<subseteq> fst ` set (run_matches ev mp rt t1 w)"
proof -
  from assms have le: "t1 \<le> t2" by simp
  show ?thesis
    using qualifies_mono [OF le, of c b] moved_files_mono [OF le, of c fs st]
      run_matches_files_mono [OF le, of ev mp rt w]
    by (intro conjI impI)
qed

theorem matched_files_are_monotone_witness:
  "(0.4 :: real) < 0.6 \<and>
   run_matches (ex_env d_mixed) ''yolo11x.pt'' ''data'' 0.4 w_two = [(''a.jpg'', 0.5), (''b.png'', 0.9)] \<and>
   run_matches (ex_env d_mixed) ''yolo11x.pt'' ''data'' 0.6 w_two = [(''b.png'', 0.9)] \<and>
   fst ` set (run_matches (ex_env d_mixed) ''yolo11x.pt'' ''data'' 0.6 w_two) \<subseteq>
     fst ` set (run_matches (ex_env d_mixed) ''yolo11x.pt'' ''data'' 0.4 w_two)"
proof -
  have lt: "(0.4 :: real) < 0.6" by simp
  have 1: "run_matches (ex_env d_mixed) ''yolo11x.pt'' ''data'' 0.4 w_two =
             [(''a.jpg'', 0.5), (''b.png'', 0.9)]"
    by code_simp
  have 2: "run_matches (ex_env d_mixed) ''yolo11x.pt'' ''data'' 0.6 w_two = [(''b.png'', 0.9)]"
    by code_simp
  from matched_files_are_monotone [OF lt, THEN conjunct2, THEN conjunct2,
         of "ex_env d_mixed" "''yolo11x.pt''" "''data''" w_two]
  have 3: "fst ` set (run_matches (ex_env d_mixed) ''yolo11x.pt'' ''data'' 0.6 w_two) \<subseteq>
     fst ` set (run_matches (ex_env d_mixed) ''yolo11x.pt'' ''data'' 0.4 w_two)" .
  from lt 1 2 3 show ?thesis by (intro conjI)
qed

section \<open>Running the workflow again\<close>

lemma settled_same:
  "nonperson st' = nonperson st \<Longrightarrow> person st' = person st \<Longrightarrow>
   settled c st' f = settled c st f"
  by (simp add: settled_def split: option.split)

lemma scan_entry_settled:
  assumes "detected c f \<longrightarrow> settled c st f"
  shows "nonperson (scan_entry c f st) = nonperson st"
    and "person (scan_entry c f st) = person st"
    and "moved_count (scan_entry c f st) = moved_count st"
    and "map fst (matches (log_file (scan_entry c f st))) = map fst (matches (log_file st))"
proof -
  have nm: "\<not> (detected c f \<and> movable c st f)"
    using assms by (auto simp: settled_def movable_def split: option.splits)
  then show "nonperson (scan_entry c f st) = nonperson st"
    by (auto simp: scan_entry_nonperson)
  from nm show "moved_count (scan_entry c f st) = moved_count st"
    by (auto simp: scan_entry_moved_count)
  from nm show "map fst (matches (log_file (scan_entry c f st))) = map fst (matches (log_file st))"
    by (auto simp: scan_entry_matches)
  show "person (scan_entry c f st) = person st"
    using assms
    by (auto simp: scan_entry_person settled_def AList.update_triv split: option.splits)
qed

lemma scan_loop_settled:
  assumes "\<forall>f \<in> set fs. detected c f \<longrightarrow> settled c st f"
  shows "nonperson (scan_loop c fs st) = nonperson st \<and>
         person (scan_loop c fs st) = person st \<and>
         moved_count (scan_loop c fs st) = moved_count st \<and>
         map fst (matches (log_file (scan_loop c fs st))) = map fst (matches (log_file st))"
  using assms
proof (induction fs arbitrary: st)
  case Nil
  then show ?case by simp
next
  case (Cons f fs)
  let ?s = "scan_entry c f st"
  from Cons.prems have "detected c f \<longrightarrow> settled c st f" by simp
  note e = scan_entry_settled [OF this]
  from Cons.prems have "\<forall>g \<in> set fs. detected c g \<longrightarrow> settled c ?s g"
    by (simp add: settled_same [OF e(1) e(2)])
  from Cons.IH [OF this] e show ?case by simp
qed

lemma scan_entry_settles:
  assumes "detected c f"
  shows "settled c (scan_entry c f st) f"
proof (cases "map_of (nonperson st) f")
  case None
  then have "\<not> movable c st f" by (simp add: movable_def)
  with None show ?thesis by (simp add: settled_def scan_entry_nonperson)
next
  case (Some d)
  show ?thesis
  proof (cases "completes c f")
    case True
    with Some assms have "map_of (nonperson (scan_entry c f st)) f = None"
      by (simp add: scan_entry_nonperson movable_def AList.delete_conv)
    then show ?thesis by (simp add: settled_def)
  next
    case False
    then have "\<not> movable c st f" by (simp add: movable_def)
    with Some False assms show ?thesis
      by (simp add: settled_def scan_entry_nonperson scan_entry_person AList.update_conv
               split: option.split)
  qed
qed

lemma scan_entry_other:
  assumes "g \<noteq> f"
  shows "map_of (nonperson (scan_entry c g st)) f = map_of (nonperson st) f"
    and "map_of (person (scan_entry c g st)) f = map_of (person st) f"
  using assms
  by (auto simp: scan_entry_nonperson scan_entry_person AList.delete_conv AList.update_conv
           split: option.split)

lemma scan_entry_keeps_settled:
  assumes "settled c st f"
  shows "settled c (scan_entry c g st) f"
proof (cases "g = f")
  case False
  from scan_entry_other [OF False, of c st] assms show ?thesis
    by (simp add: settled_def split: option.splits)
next
  case True
  show ?thesis
  proof (cases "detected c f")
    case True
    with \<open>g = f\<close> show ?thesis by (simp add: scan_entry_settles)
  next
    case False
    with \<open>g = f\<close> assms show ?thesis
      by (simp add: settled_def scan_entry_nonperson scan_entry_person split: option.splits)
  qed
qed

lemma scan_loop_keeps_settled:
  "settled c st f \<Longrightarrow> settled c (scan_loop c fs st) f"
  by (induction fs arbitrary: st) (simp_all add: scan_entry_keeps_settled)

lemma scan_loop_settles:
  "f \<in> set fs \<Longrightarrow> detected c f \<Longrightarrow> settled c (scan_loop c fs st) f"
proof (induction fs arbitrary: st)
  case Nil
  then show ?case by simp
next
  case (Cons g fs)
  show ?case
  proof (cases "g = f")
    case True
    with Cons.prems show ?thesis
      by (simp add: scan_loop_keeps_settled scan_entry_settles)
  next
    case False
    with Cons show ?thesis by simp
  qed
qed

lemma rerun_is_settled:
  assumes "s2 = start_state (nonperson (scan_loop c (map fst np) (start_state np pp w)))
                  (person (scan_loop c (map fst np) (start_state np pp w))) w1"
  shows "\<forall>f \<in> set (map fst (nonperson s2)). detected c f \<longrightarrow> settled c s2 f"
proof (intro ballI impI)
  fix f
  let ?st = "scan_loop c (map fst np) (start_state np pp w)"
  assume "f \<in> set (map fst (nonperson s2))" and d: "detected c f"
  then have "f \<in> names (nonperson ?st)"
    by (simp add: assms start_state_def names_def)
  then have "f \<in> set (map fst np)"
    unfolding names_scan_loop by (simp add: names_def start_state_def)
  from scan_loop_settles [OF this d] have "settled c ?st f" .
  moreover have "nonperson s2 = nonperson ?st" "person s2 = person ?st"
    by (simp_all add: assms start_state_def)
  ultimately show "settled c s2 f" by (simp add: settled_def split: option.splits)
qed

text \<open>
  C8. After a run that returned, a second run of the same workflow (same model, same
  threshold, same refusals of the operating system; only the clock differs) on the world
  the first run left scans the non-person directory only: the detector is called on the
  accepted entries that are still there and on nothing else, and no file that the first
  run moved is among them. The second run matches no file at all: it moves nothing,
  leaves both class directories as they were and returns \<open>moved_count = 0\<close>, which is at
  most the count of the first run.
\<close>

theorem rerun_matches_nothing_again:
  assumes r1: "process_mislabeled_images ev mp rt t w = (Inr (n1, p1), w1)"
    and r2: "process_mislabeled_images ev2 mp rt t w1 = (Inr (n2, p2), w2)"
    and same: "YOLO ev2 = YOLO ev" "os_refuse ev2 = os_refuse ev"
  shows "n2 \<le> n1 \<and> n2 = 0 \<and> run_matches ev2 mp rt t w1 = [] \<and>
         (\<forall>f x. Moved f x \<in> set (written_log ev w1) \<longrightarrow> f \<notin> set (listing (dir0 w1))) \<and>
         detector_calls w2 =
           detector_calls w1 @
           map (path_join (path_join rt ''0'')) (filter accepted (listing (dir0 w1))) \<and>
         dir0 w2 = dir0 w1 \<and> dir1 w2 = dir1 w1"
proof -
  from process_Inr [OF r1] obtain m np pp
    where a3: "YOLO ev mp = Inr m" "dir0 w = Some np" "dir1 w = Some pp" by blast
  let ?c = "run_ctx ev m rt t"
  let ?st1 = "scan_loop ?c (map fst np) (start_state np pp w)"
  from r1 have w1: "snd (process_mislabeled_images ev mp rt t w) = w1" by simp
  have d1: "dir0 w1 = Some (nonperson ?st1)" "dir1 w1 = Some (person ?st1)"
    using w1 unfolding process_ok [OF a3] by auto
  have y2: "YOLO ev2 mp = Inr m" using a3(1) same(1) by simp
  have c2: "run_ctx ev2 m rt t = ?c" by (simp add: run_ctx_def same(2))
  let ?s2 = "start_state (nonperson ?st1) (person ?st1) w1"
  let ?st2 = "scan_loop ?c (map fst (nonperson ?st1)) ?s2"
  have ns2: "nonperson ?s2 = nonperson ?st1" "person ?s2 = person ?st1"
    "moved_count ?s2 = 0" "log_file ?s2 = [Header]"
    by (simp_all add: start_state_def)
  have "\<forall>f \<in> set (map fst (nonperson ?s2)). detected ?c f \<longrightarrow> settled ?c ?s2 f"
    by (rule rerun_is_settled) (rule refl)
  then have "\<forall>f \<in> set (map fst (nonperson ?st1)). detected ?c f \<longrightarrow> settled ?c ?s2 f"
    unfolding ns2 .
  from scan_loop_settled [OF this]
  have q: "nonperson ?st2 = nonperson ?st1" "person ?st2 = person ?st1"
    "moved_count ?st2 = 0" "map fst (matches (log_file ?st2)) = []"
    unfolding ns2 by simp_all
  note p2 = process_ok [OF y2 d1, of rt t, unfolded c2]
  from r2 have n2: "n2 = 0" unfolding p2 q by simp
  from r2 have w2: "snd (process_mislabeled_images ev2 mp rt t w1) = w2" by simp
  have e0: "dir0 w2 = dir0 w1" using w2 unfolding p2 q d1 by auto
  have e1: "dir1 w2 = dir1 w1" using w2 unfolding p2 q d1 by auto
  have m2: "run_matches ev2 mp rt t w1 = []"
    unfolding run_matches_def written_log_process [OF y2 d1, of rt t, unfolded c2]
    using q(4) by simp
  have cl: "detector_calls w2 =
           detector_calls w1 @
           map (path_join (path_join rt ''0'')) (filter accepted (listing (dir0 w1)))"
    using process_calls [OF y2 d1, of rt t] unfolding w2 .
  have gone: "\<forall>f x. Moved f x \<in> set (written_log ev w1) \<longrightarrow> f \<notin> set (listing (dir0 w1))"
    using process_moved_places [OF a3, of _ _ rt t] unfolding w1 by blast
  from n2 m2 gone cl e0 e1 show ?thesis by simp
qed

theorem rerun_matches_nothing_again_witness:
  "process_mislabeled_images (ex_env d_ab) ''yolo11x.pt'' ''data'' 0.4 w_ab =
     (Inr (1, ''data/logs/moved_files_20250102_030405.txt''), w_ab_after) \<and>
   process_mislabeled_images (ex_later d_ab) ''yolo11x.pt'' ''data'' 0.4 w_ab_after =
     (Inr (0, ''data/logs/moved_files_20250102_030406.txt''), w_ab_rerun) \<and>
   (0 :: nat) \<le> 1 \<and>
   run_matches (ex_later d_ab) ''yolo11x.pt'' ''data'' 0.4 w_ab_after = [] \<and>
   Moved ''a.jpg'' 0.9 \<in> set (written_log (ex_env d_ab) w_ab_after) \<and>
   ''a.jpg'' \<notin> set (listing (dir0 w_ab_after)) \<and>
   dir0 w_ab_rerun = dir0 w_ab_after \<and> dir1 w_ab_rerun = dir1 w_ab_after"
proof -
  have r1: "process_mislabeled_images (ex_env d_ab) ''yolo11x.pt'' ''data'' 0.4 w_ab =
     (Inr (1, ''data/logs/moved_files_20250102_030405.txt''), w_ab_after)"
    by code_simp
  have r2: "process_mislabeled_images (ex_later d_ab) ''yolo11x.pt'' ''data'' 0.4 w_ab_after =
     (Inr (0, ''data/logs/moved_files_20250102_030406.txt''), w_ab_rerun)"
    by code_simp
  have s1: "YOLO (ex_later d_ab) = YOLO (ex_env d_ab)"
    and s2: "os_refuse (ex_later d_ab) = os_refuse (ex_env d_ab)"
    by (simp_all add: ex_later_def)
  have mem: "Moved ''a.jpg'' 0.9 \<in> set (written_log (ex_env d_ab) w_ab_after)"
    by code_simp
  note T = rerun_matches_nothing_again [OF r1 r2 s1 s2]
  from T have a: "(0 :: nat) \<le> 1" by (rule conjunct1)
  from T have b: "run_matches (ex_later d_ab) ''yolo11x.pt'' ''data'' 0.4 w_ab_after = []"
    by (elim conjE)
  from T mem have c: "''a.jpg'' \<notin> set (listing (dir0 w_ab_after))" by blast
  from T have d: "dir0 w_ab_rerun = dir0 w_ab_after \<and> dir1 w_ab_rerun = dir1 w_ab_after"
    by (elim conjE) (intro conjI)
  from r1 r2 a b mem c d show ?thesis by simp
qed

section \<open>The log file\<close>

























end
